theory Spec2Isabelle
  imports
    Complex_Main
    "HOL-Library.Char_ord"
    "HOL-Library.List_Lexorder"
    "HOL-Library.Log_Nat"
    "HOL-Library.Product_Lexorder"
    "HOL-Library.Sublist"
begin

section \<open>ShiCo: vocabulary tracking over time-windowed embedding models\<close>

text \<open>
  A shallow embedding of \<^verbatim>\<open>shico/extras/termlistcleaner.py\<close>,
  \<^verbatim>\<open>shico/format.py\<close> (\<^verbatim>\<open>getRangeMiddle\<close>) and
  \<^verbatim>\<open>shico/vocabularymonitor.py\<close>.

  Conventions. Python \<^verbatim>\<open>str\<close> is \<^typ>\<open>string\<close>, one \<^typ>\<open>char\<close> per code point
  (code points up to 255); string comparison is by code point, which is the order of
  \<^verbatim>\<open>Char_ord\<close> and \<^verbatim>\<open>List_Lexorder\<close>. Python \<^verbatim>\<open>float\<close> is \<^typ>\<open>real\<close>:
  rounding of sums of similarities and NaN are outside the model. Every \<^verbatim>\<open>raise\<close> is
  a value \<open>Inl e\<close> of the result type \<open>py_error + 'a\<close>.
\<close>

datatype py_error =
    KeyError string
  | ZeroDivisionError
  | ValueError
  | IndexError
  | OverflowError
  | PyException string
  | OtherError

subsection \<open>\<^verbatim>\<open>editdistance.eval\<close>\<close>

text \<open>
  \<^verbatim>\<open>editdistance\<close> is a third-party package; its \<^verbatim>\<open>eval(a, b)\<close> is documented as the
  Levenshtein distance of the two sequences: the least number of single-element
  insertions, deletions and substitutions turning one into the other. It is given here by
  the textbook recurrence.
\<close>

fun editdistance_eval :: "'a list \<Rightarrow> 'a list \<Rightarrow> nat" where
  "editdistance_eval [] ys = length ys"
| "editdistance_eval (x # xs) [] = Suc (length xs)"
| "editdistance_eval (x # xs) (y # ys) =
     min (min (editdistance_eval xs (y # ys) + 1) (editdistance_eval (x # xs) ys + 1))
         (editdistance_eval xs ys + (if x = y then 0 else 1))"

text \<open>
  The recurrence branches three ways; for evaluation the same numbers are computed row by
  row. \<open>suffixes_of b\<close> lists \<open>b\<close> and its proper suffixes, longest first; the row of
  \<open>a\<close> holds the distance from \<open>a\<close> to each of them.
\<close>

fun suffixes_of :: "'a list \<Rightarrow> 'a list list" where
  "suffixes_of [] = [[]]"
| "suffixes_of (y # ys) = (y # ys) # suffixes_of ys"

fun row_step :: "'a \<Rightarrow> 'a list \<Rightarrow> nat list \<Rightarrow> nat list" where
  "row_step x [] r = [hd r + 1]"
| "row_step x (y # ys) r =
     (let rest = row_step x ys (tl r)
      in min (min (hd r + 1) (hd rest + 1)) (hd (tl r) + (if x = y then 0 else 1)) # rest)"

definition distance_row :: "'a list \<Rightarrow> 'a list \<Rightarrow> nat list" where
  "distance_row a b = foldr (\<lambda>x r. row_step x b r) a (map length (suffixes_of b))"

subsection \<open>\<^verbatim>\<open>termlistcleaner.py\<close>\<close>

text \<open>
  \<^verbatim>\<open>_isCloseToList\<close>: the \<^verbatim>\<open>for known, _ in cleanTerms\<close> loop. The quotient
  \<^verbatim>\<open>float(editdistance.eval(word, known)) / min(len(word), len(known))\<close> raises
  \<^verbatim>\<open>ZeroDivisionError\<close> when the shorter word is empty. Both operands are small
  integers, so the float comparison with \<^verbatim>\<open>minEditDiff\<close> agrees with the comparison of
  the exact quotient.
\<close>

fun isCloseToList_loop :: "string \<Rightarrow> (string \<times> 'w) list \<Rightarrow> real \<Rightarrow> py_error + bool" where
  "isCloseToList_loop word [] minEditDiff = Inr False"
| "isCloseToList_loop word ((known, _) # rest) minEditDiff =
     (if min (length word) (length known) = 0 then Inl ZeroDivisionError
      else let diff = real (editdistance_eval word known) / real (min (length word) (length known))
           in if diff < minEditDiff then Inr True
              else isCloseToList_loop word rest minEditDiff)"

definition isCloseToList :: "string \<Rightarrow> (string \<times> 'w) list \<Rightarrow> real \<Rightarrow> py_error + bool" where
  "isCloseToList word cleanTerms minEditDiff =
     (if length cleanTerms = 0 then Inr False
      else isCloseToList_loop word cleanTerms minEditDiff)"

definition minEditDiff :: real where
  "minEditDiff = 0.20"

text \<open>\<^verbatim>\<open>cleanTermList\<close>: the loop over \<^verbatim>\<open>termList\<close>, carrying \<^verbatim>\<open>cleanTerms\<close>.\<close>

fun cleanTermList_loop ::
  "(string \<times> 'w) list \<Rightarrow> (string \<times> 'w) list \<Rightarrow> py_error + (string \<times> 'w) list" where
  "cleanTermList_loop cleanTerms [] = Inr cleanTerms"
| "cleanTermList_loop cleanTerms ((word, weight) # rest) =
     (case isCloseToList word cleanTerms minEditDiff of
        Inl e \<Rightarrow> Inl e
      | Inr close \<Rightarrow>
          cleanTermList_loop (if \<not> close then cleanTerms @ [(word, weight)] else cleanTerms) rest)"

definition cleanTermList :: "(string \<times> 'w) list \<Rightarrow> py_error + (string \<times> 'w) list" where
  "cleanTermList termList = cleanTermList_loop [] termList"

text \<open>
  The near-duplicate filter as the specification words it: a candidate is accepted if and
  only if its normalized edit distance to every term accepted so far is at least 0.20.
\<close>

definition normalized_distance :: "string \<Rightarrow> string \<Rightarrow> real" where
  "normalized_distance a b = real (editdistance_eval a b) / real (min (length a) (length b))"

definition spec_accepts :: "(string \<times> 'w) list \<Rightarrow> string \<Rightarrow> bool" where
  "spec_accepts accepted candidate =
     (\<forall>known \<in> set accepted. 0.20 \<le> normalized_distance candidate (fst known))"

fun spec_clean_from :: "(string \<times> 'w) list \<Rightarrow> (string \<times> 'w) list \<Rightarrow> (string \<times> 'w) list" where
  "spec_clean_from accepted [] = accepted"
| "spec_clean_from accepted ((candidate, weight) # rest) =
     spec_clean_from
       (if spec_accepts accepted candidate then accepted @ [(candidate, weight)] else accepted)
       rest"

definition spec_clean :: "(string \<times> 'w) list \<Rightarrow> (string \<times> 'w) list" where
  "spec_clean termList = spec_clean_from [] termList"

subsection \<open>\<^verbatim>\<open>format.py\<close>: \<^verbatim>\<open>getRangeMiddle\<close>\<close>

text \<open>\<^verbatim>\<open>s.split(sep)\<close> for a one-character separator: the pieces between the separators.\<close>

fun split_on :: "char \<Rightarrow> string \<Rightarrow> string list" where
  "split_on sep [] = [[]]"
| "split_on sep (c # cs) =
     (if c = sep then [] # split_on sep cs
      else (case split_on sep cs of
              [] \<Rightarrow> [[c]]
            | piece # pieces \<Rightarrow> (c # piece) # pieces))"

text \<open>\<^verbatim>\<open>xs[i]\<close> for a non-negative index: \<^verbatim>\<open>IndexError\<close> out of range.\<close>

definition getitem :: "'a list \<Rightarrow> nat \<Rightarrow> py_error + 'a" where
  "getitem xs i = (if i < length xs then Inr (xs ! i) else Inl IndexError)"

text \<open>
  \<^verbatim>\<open>int(s)\<close> on a string without underscore (no piece of \<^verbatim>\<open>split('_')\<close> has one):
  surrounding whitespace is stripped, one sign is allowed, and what remains must be a
  non-empty run of decimal digits; anything else is a \<^verbatim>\<open>ValueError\<close>. The whitespace
  that \<^verbatim>\<open>int\<close> strips is tab, line feed, vertical tab, form feed, carriage return and
  space, and of the code points from 128 to 255 the two that are whitespace, U+0085 and
  U+00A0; the separators U+001C to U+001F are not stripped. The limit that CPython from
  version 3.11 on puts on the number of digits (4300 unless configured) is not part of
  \<^verbatim>\<open>int\<close> in earlier versions and not of this definition; the general statement below
  is for year fields within it.
\<close>

definition is_space :: "char \<Rightarrow> bool" where
  "is_space c = (of_char c \<in> {9, 10, 11, 12, 13, 32, 133, 160 :: nat})"

definition strip :: "string \<Rightarrow> string" where
  "strip s = rev (dropWhile is_space (rev (dropWhile is_space s)))"

definition is_digit :: "char \<Rightarrow> bool" where
  "is_digit c = (48 \<le> (of_char c :: nat) \<and> (of_char c :: nat) \<le> 57)"

fun decimal_from :: "nat \<Rightarrow> string \<Rightarrow> nat option" where
  "decimal_from acc [] = Some acc"
| "decimal_from acc (c # cs) =
     (if is_digit c then decimal_from (10 * acc + (of_char c - 48)) cs else None)"

definition decimal :: "string \<Rightarrow> nat option" where
  "decimal s = (if s = [] then None else decimal_from 0 s)"

definition int_of_str :: "string \<Rightarrow> py_error + int" where
  "int_of_str s =
     (let t = strip s;
          (negative, digits) =
            (case t of
               [] \<Rightarrow> (False, [])
             | c # cs \<Rightarrow>
                 if c = CHR ''-'' then (True, cs)
                 else if c = CHR ''+'' then (False, cs)
                 else (False, t))
      in case decimal digits of
           None \<Rightarrow> Inl ValueError
         | Some n \<Rightarrow> Inr (if negative then - int n else int n))"

text \<open>
  \<^verbatim>\<open>round(x)\<close> of Python 3 on a float: the nearest integer, a tie going to the even
  neighbour.
\<close>

definition py_round :: "real \<Rightarrow> int" where
  "py_round x =
     (let f = \<lfloor>x\<rfloor>; d = x - of_int f
      in if d < 1 / 2 then f
         else if 1 / 2 < d then f + 1
         else if even f then f else f + 1)"

text \<open>
  \<^verbatim>\<open>n / 2\<close> for an \<^verbatim>\<open>int\<close> \<open>n\<close>: true division, whose result is the double nearest to
  the quotient. A double has 53 significant bits: \<open>|n|\<close> is cut to its leading 53 bits,
  \<open>q\<close>, and rounded up when the bits cut off, \<open>r\<close>, are more than half a unit of \<open>q\<close>, or
  exactly half and \<open>q\<close> is odd. A result of \<open>2^1024\<close> or more is beyond the doubles and
  raises \<^verbatim>\<open>OverflowError\<close>. \<open>rounded\<close> is twice the magnitude of the result.
\<close>

definition float_half :: "int \<Rightarrow> py_error + real" where
  "float_half n =
     (let m = nat \<bar>n\<bar>;
          shift = floorlog 2 m - 53;
          q = m div 2 ^ shift;
          r = m mod 2 ^ shift;
          q' = (if 2 * r < 2 ^ shift \<or> (2 * r = 2 ^ shift \<and> even q) then q else q + 1);
          rounded = q' * 2 ^ shift
      in if 2 ^ 1025 \<le> rounded then Inl OverflowError
         else Inr (if n < 0 then - (real rounded / 2) else real rounded / 2))"

text \<open>\<^verbatim>\<open>getRangeMiddle(first, last=None)\<close>.\<close>

definition getRangeMiddle :: "string \<Rightarrow> string option \<Rightarrow> py_error + int" where
  "getRangeMiddle first last_arg =
     (let last = (case last_arg of None \<Rightarrow> first | Some l \<Rightarrow> l)
      in case getitem (split_on CHR ''_'' first) 0 of
           Inl e \<Rightarrow> Inl e
         | Inr p0 \<Rightarrow>
             (case int_of_str p0 of
                Inl e \<Rightarrow> Inl e
              | Inr y0 \<Rightarrow>
                  (case getitem (split_on CHR ''_'' last) 1 of
                     Inl e \<Rightarrow> Inl e
                   | Inr pn \<Rightarrow>
                       (case int_of_str pn of
                          Inl e \<Rightarrow> Inl e
                        | Inr yn \<Rightarrow>
                            (case float_half (yn + y0) of
                               Inl e \<Rightarrow> Inl e
                             | Inr half \<Rightarrow> Inr (py_round half))))))"

subsection \<open>Containers of \<^verbatim>\<open>vocabularymonitor.py\<close>\<close>

text \<open>
  \<^verbatim>\<open>SortedDict\<close> (package \<^verbatim>\<open>sortedcontainers\<close>): a dictionary whose keys are kept in
  ascending order. It is an association list; \<^verbatim>\<open>d[k] = v\<close> replaces the value of a
  present key and puts a new key at its place in the order.
\<close>

fun sd_setitem :: "'k::linorder \<Rightarrow> 'v \<Rightarrow> ('k \<times> 'v) list \<Rightarrow> ('k \<times> 'v) list" where
  "sd_setitem k v [] = [(k, v)]"
| "sd_setitem k v ((k', v') # rest) =
     (if k < k' then (k, v) # (k', v') # rest
      else if k = k' then (k, v) # rest
      else (k', v') # sd_setitem k v rest)"

definition sd_keys :: "('k \<times> 'v) list \<Rightarrow> 'k list" where
  "sd_keys d = map fst d"

definition sd_getitem :: "(string \<times> 'v) list \<Rightarrow> string \<Rightarrow> py_error + 'v" where
  "sd_getitem d k = (case map_of d k of None \<Rightarrow> Inl (KeyError k) | Some v \<Rightarrow> Inr v)"

text \<open>
  \<^verbatim>\<open>defaultdict\<close>: a dictionary in insertion order. \<open>dd_modify dflt f k d\<close> is
  \<^verbatim>\<open>d[k] = f(d[k])\<close>, where reading a missing key first stores the default at the end;
  a present key keeps its position.
\<close>

fun dd_modify :: "'v \<Rightarrow> ('v \<Rightarrow> 'v) \<Rightarrow> 'k \<Rightarrow> ('k \<times> 'v) list \<Rightarrow> ('k \<times> 'v) list" where
  "dd_modify dflt f k [] = [(k, f dflt)]"
| "dd_modify dflt f k ((k', v) # rest) =
     (if k' = k then (k', f v) # rest else (k', v) # dd_modify dflt f k rest)"

text \<open>\<^verbatim>\<open>xs.index(x)\<close>: the first position of \<open>x\<close>, \<^verbatim>\<open>ValueError\<close> when absent.\<close>

fun index_of :: "'a \<Rightarrow> 'a list \<Rightarrow> py_error + nat" where
  "index_of x [] = Inl ValueError"
| "index_of x (y # ys) =
     (if y = x then Inr 0
      else (case index_of x ys of Inl e \<Rightarrow> Inl e | Inr i \<Rightarrow> Inr (Suc i)))"

subsection \<open>Querying one period's model\<close>

text \<open>
  A model is its \<^verbatim>\<open>most_similar(term, topn)\<close>: the ranked neighbours with their
  similarities, or an exception (\<^verbatim>\<open>KeyError\<close> for a term outside the vocabulary).
  \<^verbatim>\<open>CachedW2VModelEvaluator\<close> memoizes this function and returns what it returns.
\<close>

type_synonym neighbours = "(string \<times> real) list"

type_synonym w2v_model = "string \<Rightarrow> int \<Rightarrow> py_error + neighbours"

type_synonym cleaner = "neighbours \<Rightarrow> py_error + neighbours"

text \<open>
  \<^verbatim>\<open>_getRelatedTermsThread\<close>, the body of one worker thread. Only \<^verbatim>\<open>KeyError\<close> is
  caught; any other exception ends the worker without an entry in \<^verbatim>\<open>queries\<close> (an
  exception in a thread does not reach the thread that joins it).
\<close>

definition getRelatedTermsThread ::
  "w2v_model \<Rightarrow> string \<Rightarrow> int \<Rightarrow> (string \<times> neighbours) list \<Rightarrow> cleaner option \<Rightarrow>
   (string \<times> neighbours) list" where
  "getRelatedTermsThread model term maxRelatedTerms queries cleaningFunction =
     (case model term maxRelatedTerms of
        Inl (KeyError _) \<Rightarrow> queries @ [(term, [])]
      | Inl _ \<Rightarrow> queries
      | Inr newTerms \<Rightarrow>
          (case cleaningFunction of
             None \<Rightarrow> queries @ [(term, newTerms)]
           | Some clean \<Rightarrow>
               (case clean newTerms of
                  Inl (KeyError _) \<Rightarrow> queries @ [(term, [])]
                | Inl _ \<Rightarrow> queries
                | Inr cleaned \<Rightarrow> queries @ [(term, cleaned)])))"

text \<open>
  \<^verbatim>\<open>_getRelatedTerms\<close>: one worker per seed term, all joined, then \<^verbatim>\<open>queries.sort()\<close>.
  The workers append in the order they finish; the list is given here for the order of
  the seeds, and sorting a list for a total order gives the same result for each of its
  permutations. Tuples and lists compare lexicographically.
\<close>

definition getRelatedTerms ::
  "w2v_model \<Rightarrow> string list \<Rightarrow> int \<Rightarrow> cleaner option \<Rightarrow> (string \<times> neighbours) list" where
  "getRelatedTerms model seedTerms maxRelatedTerms cleaningFunction =
     sort (fold (\<lambda>term queries.
                   getRelatedTermsThread model term maxRelatedTerms queries cleaningFunction)
                seedTerms [])"

text \<open>\<^verbatim>\<open>_pruned\<close>.\<close>

definition pruned :: "(string \<times> real) list \<Rightarrow> string set \<Rightarrow> (string \<times> real) list" where
  "pruned pairs words = filter (\<lambda>(word, weight). word \<in> words) pairs"

text \<open>
  \<^verbatim>\<open>_getCommonTerms\<close>: \<^verbatim>\<open>Counter(terms).most_common(N)\<close>, which is
  \<^verbatim>\<open>heapq.nlargest(N, items, key=weight)\<close>: the first \<open>N\<close> items of the stable sort by
  descending weight, none for \<open>N \<le> 0\<close>.
\<close>

definition getCommonTerms :: "(string \<times> real) list \<Rightarrow> int \<Rightarrow> (string \<times> real) list" where
  "getCommonTerms terms N = take (nat N) (sort_key (\<lambda>(word, weight). - weight) terms)"

subsection \<open>\<^verbatim>\<open>_trackCore\<close> and \<^verbatim>\<open>_trackInlink\<close>\<close>

text \<open>
  The state of the two loops of \<^verbatim>\<open>_trackCore\<close> is the pair of \<^verbatim>\<open>dRelatedTerms\<close>
  and \<^verbatim>\<open>links\<close>. The inner loop, \<^verbatim>\<open>for newTerm, tSim in newTerms\<close>, leaves at the
  first similarity below \<^verbatim>\<open>minSim\<close>.
\<close>

type_synonym core_state = "(string \<times> real) list \<times> (string \<times> (string \<times> real) list) list"

fun neighbours_loop ::
  "(real \<Rightarrow> real) \<Rightarrow> real \<Rightarrow> string \<Rightarrow> neighbours \<Rightarrow> core_state \<Rightarrow> core_state" where
  "neighbours_loop reward minSim term [] (dRelatedTerms, links) = (dRelatedTerms, links)"
| "neighbours_loop reward minSim term ((newTerm, tSim) # rest) (dRelatedTerms, links) =
     (if tSim < minSim then (dRelatedTerms, links)
      else neighbours_loop reward minSim term rest
             (dd_modify 0 (\<lambda>w. w + reward tSim) newTerm dRelatedTerms,
              dd_modify [] (\<lambda>ps. ps @ [(newTerm, tSim)]) term links))"

text \<open>The body of the outer loop, \<^verbatim>\<open>for term, newTerms in relatedTermQueries\<close>.\<close>

fun seed_step ::
  "real \<Rightarrow> (real \<Rightarrow> real) \<Rightarrow> real \<Rightarrow> string \<times> neighbours \<Rightarrow> core_state \<Rightarrow> core_state" where
  "seed_step wordBoost reward minSim (term, newTerms) (dRelatedTerms, links) =
     neighbours_loop reward minSim term newTerms
       (dd_modify 0 (\<lambda>_. wordBoost) term dRelatedTerms,
        dd_modify [] (\<lambda>ps. ps @ [(term, 0)]) term links)"

definition accumulate ::
  "real \<Rightarrow> (real \<Rightarrow> real) \<Rightarrow> real \<Rightarrow> (string \<times> neighbours) list \<Rightarrow> core_state" where
  "accumulate wordBoost reward minSim relatedTermQueries =
     fold (seed_step wordBoost reward minSim) relatedTermQueries ([], [])"

definition trackCore ::
  "w2v_model \<Rightarrow> string list \<Rightarrow> int \<Rightarrow> int \<Rightarrow> real \<Rightarrow> real \<Rightarrow> (real \<Rightarrow> real) \<Rightarrow>
   cleaner option \<Rightarrow> (string \<times> real) list \<times> (string \<times> (string \<times> real) list) list" where
  "trackCore model seedTerms maxTerms maxRelatedTerms minSim wordBoost reward cleaningFunction =
     (let relatedTermQueries =
            getRelatedTerms model seedTerms maxRelatedTerms cleaningFunction;
          (dRelatedTerms, links) = accumulate wordBoost reward minSim relatedTermQueries;
          topTerms = getCommonTerms dRelatedTerms maxTerms;
          selectedTerms = set (map fst topTerms)
      in (topTerms, map (\<lambda>(seed, pairs). (seed, pruned pairs selectedTerms)) links))"

text \<open>
  \<^verbatim>\<open>_trackInlink\<close>. Only the \<^verbatim>\<open>sumSimilarity\<close> branch passes \<^verbatim>\<open>wordBoost\<close> on; the
  other branch leaves \<^verbatim>\<open>_trackCore\<close> its defaults \<^verbatim>\<open>wordBoost=1.0\<close> and
  \<^verbatim>\<open>reward=lambda x: 1.0\<close>.
\<close>

definition trackInlink ::
  "w2v_model \<Rightarrow> string list \<Rightarrow> int \<Rightarrow> int \<Rightarrow> real \<Rightarrow> real \<Rightarrow> bool \<Rightarrow> cleaner option \<Rightarrow>
   (string \<times> real) list \<times> (string \<times> (string \<times> real) list) list \<times> string list" where
  "trackInlink model seedTerms maxTerms maxRelatedTerms minSim wordBoost sumSimilarity
       cleaningFunction =
     (let (terms, links) =
            (if sumSimilarity
             then trackCore model seedTerms maxTerms maxRelatedTerms minSim wordBoost
                    (\<lambda>tSim. 1.0 - tSim) cleaningFunction
             else trackCore model seedTerms maxTerms maxRelatedTerms minSim 1.0
                    (\<lambda>x. 1.0) cleaningFunction);
          newSeedSet = map fst terms
      in (terms, links, newSeedSet))"

subsection \<open>\<^verbatim>\<open>VocabularyMonitor\<close>\<close>

text \<open>
  \<^verbatim>\<open>_loadAllModels\<close> stores each loaded model under the name of its file in the
  \<^verbatim>\<open>SortedDict\<close> \<^verbatim>\<open>self._models\<close>; \<open>loaded\<close> is the list of names and models in the
  order of \<^verbatim>\<open>glob\<close>.
\<close>

definition loadAllModels :: "(string \<times> w2v_model) list \<Rightarrow> (string \<times> w2v_model) list" where
  "loadAllModels loaded = fold (\<lambda>(sModelName, model) models. sd_setitem sModelName model models) loaded []"

definition getAvailableYears :: "(string \<times> w2v_model) list \<Rightarrow> string list" where
  "getAvailableYears models = sd_keys models"

text \<open>The arguments of \<^verbatim>\<open>trackClouds\<close> after \<^verbatim>\<open>seedTerms\<close>.\<close>

datatype seed_arg = SeedString string | SeedList "string list"

record track_args =
  maxTerms :: int
  maxRelatedTerms :: int
  startKey :: "string option"
  endKey :: "string option"
  minSim :: real
  wordBoost :: real
  forwards :: bool
  sumSimilarity :: bool
  algorithm :: string
  cleaningFunction :: "cleaner option"

text \<open>\<^verbatim>\<open>if isinstance(seedTerms, six.string_types): seedTerms = [seedTerms]\<close>.\<close>

fun seed_list :: "seed_arg \<Rightarrow> string list" where
  "seed_list (SeedString s) = [s]"
| "seed_list (SeedList ss) = ss"

text \<open>The two range selections, \<^verbatim>\<open>sortedKeys[keyIdx:]\<close> and \<^verbatim>\<open>sortedKeys[:keyIdx]\<close>.\<close>

definition select_start :: "string option \<Rightarrow> string list \<Rightarrow> py_error + string list" where
  "select_start start sortedKeys =
     (case start of
        None \<Rightarrow> Inr sortedKeys
      | Some k \<Rightarrow>
          if k \<notin> set sortedKeys
          then Inl (KeyError (''Key '' @ k @ '' not a valid model index''))
          else (case index_of k sortedKeys of
                  Inl e \<Rightarrow> Inl e
                | Inr keyIdx \<Rightarrow> Inr (drop keyIdx sortedKeys)))"

definition select_end :: "string option \<Rightarrow> string list \<Rightarrow> py_error + string list" where
  "select_end end sortedKeys =
     (case end of
        None \<Rightarrow> Inr sortedKeys
      | Some k \<Rightarrow>
          if k \<notin> set sortedKeys
          then Inl (KeyError (''Key '' @ k @ '' not a valid model index''))
          else (case index_of k sortedKeys of
                  Inl e \<Rightarrow> Inl e
                | Inr keyIdx \<Rightarrow> Inr (take keyIdx sortedKeys)))"

text \<open>
  The keys the loop iterates, in that order: both selections, then
  \<^verbatim>\<open>sortedKeys[::-1]\<close> when \<^verbatim>\<open>forwards\<close> is false.
\<close>

definition processing_order :: "(string \<times> w2v_model) list \<Rightarrow> track_args \<Rightarrow> py_error + string list" where
  "processing_order models args =
     (case select_start (startKey args) (sd_keys models) of
        Inl e \<Rightarrow> Inl e
      | Inr fromStart \<Rightarrow>
          (case select_end (endKey args) fromStart of
             Inl e \<Rightarrow> Inl e
           | Inr sortedKeys \<Rightarrow> Inr (if \<not> forwards args then rev sortedKeys else sortedKeys)))"

text \<open>
  The loop \<^verbatim>\<open>for sKey in sortedKeys\<close>, with \<^verbatim>\<open>aSeedSet\<close> and the two result
  dictionaries \<^verbatim>\<open>yTerms\<close> and \<^verbatim>\<open>yLinks\<close> (both \<^verbatim>\<open>SortedDict\<close>) as its state.
\<close>

type_synonym tracking_result =
  "(string \<times> (string \<times> real) list) list \<times> (string \<times> (string \<times> (string \<times> real) list) list) list"

fun track_loop ::
  "(string \<times> w2v_model) list \<Rightarrow> track_args \<Rightarrow> string list \<Rightarrow> string list \<Rightarrow>
   tracking_result \<Rightarrow> py_error + tracking_result" where
  "track_loop models args [] aSeedSet (yTerms, yLinks) = Inr (yTerms, yLinks)"
| "track_loop models args (sKey # rest) aSeedSet (yTerms, yLinks) =
     (if algorithm args = ''adaptive'' then
        (case sd_getitem models sKey of
           Inl e \<Rightarrow> Inl e
         | Inr model \<Rightarrow>
             (case trackInlink model aSeedSet (maxTerms args) (maxRelatedTerms args)
                     (minSim args) (wordBoost args) (sumSimilarity args)
                     (cleaningFunction args) of
                (terms, links, newSeedSet) \<Rightarrow>
                  track_loop models args rest newSeedSet
                    (sd_setitem sKey terms yTerms, sd_setitem sKey links yLinks)))
      else if algorithm args = ''non-adaptive'' then
        (case sd_getitem models sKey of
           Inl e \<Rightarrow> Inl e
         | Inr model \<Rightarrow>
             (case trackCore model aSeedSet (maxTerms args) (maxRelatedTerms args)
                     (minSim args) 1.0 (\<lambda>x. 1.0) (cleaningFunction args) of
                (terms, links) \<Rightarrow>
                  track_loop models args rest aSeedSet
                    (sd_setitem sKey terms yTerms, sd_setitem sKey links yLinks)))
      else Inl (PyException (''Algorithm not supported: '' @ algorithm args)))"

definition trackClouds ::
  "(string \<times> w2v_model) list \<Rightarrow> seed_arg \<Rightarrow> track_args \<Rightarrow> py_error + tracking_result" where
  "trackClouds models seedTerms args =
     (case processing_order models args of
        Inl e \<Rightarrow> Inl e
      | Inr sortedKeys \<Rightarrow> track_loop models args sortedKeys (seed_list seedTerms) ([], []))"

subsection \<open>Example inputs\<close>

text \<open>A model in which \<open>a\<close> and \<open>b\<close> are each other's nearest neighbour.\<close>

definition mutual_model :: w2v_model where
  "mutual_model term topn =
     (if term = ''a'' then Inr [(''b'', 0.9)]
      else if term = ''b'' then Inr [(''a'', 0.9)]
      else Inl (KeyError term))"

text \<open>The default arguments of \<^verbatim>\<open>trackClouds\<close>, and two periods served by the same model.\<close>

definition default_args :: track_args where
  "default_args =
     \<lparr>maxTerms = 10, maxRelatedTerms = 10, startKey = None, endKey = None, minSim = 0.0,
      wordBoost = 1.00, forwards = True, sumSimilarity = False, algorithm = ''adaptive'',
      cleaningFunction = None\<rparr>"

definition two_periods :: "(string \<times> w2v_model) list" where
  "two_periods = loadAllModels [(''1951_1960'', mutual_model), (''1950_1959'', mutual_model)]"

subsection \<open>The half-open range of period keys\<close>

text \<open>
  The interval \<open>[startKey, endKey)\<close> as a predicate on keys; an omitted bound does not
  constrain.
\<close>

definition in_range :: "string option \<Rightarrow> string option \<Rightarrow> string \<Rightarrow> bool" where
  "in_range start end k =
     ((case start of None \<Rightarrow> True | Some s \<Rightarrow> s \<le> k) \<and>
      (case end of None \<Rightarrow> True | Some e \<Rightarrow> k < e))"

text \<open>
  The requests \<^verbatim>\<open>trackClouds\<close> refuses with a \<^verbatim>\<open>KeyError\<close>: a start key that is not
  loaded, or an end key that is not among the loaded keys from the start key on.
\<close>

definition bad_range :: "string list \<Rightarrow> track_args \<Rightarrow> bool" where
  "bad_range keys args =
     ((case startKey args of None \<Rightarrow> False | Some s \<Rightarrow> s \<notin> set keys) \<or>
      (case endKey args of
         None \<Rightarrow> False
       | Some e \<Rightarrow>
           e \<notin> set keys \<or> (case startKey args of None \<Rightarrow> False | Some s \<Rightarrow> e < s)))"

text \<open>
  Two states of the loops of \<^verbatim>\<open>_trackCore\<close> agree off a term when every other term has
  the same weight and every other seed the same links in both.
\<close>

definition agree_off :: "string \<Rightarrow> core_state \<Rightarrow> core_state \<Rightarrow> bool" where
  "agree_off u st st' =
     ((\<forall>t. t \<noteq> u \<longrightarrow> map_of (fst st) t = map_of (fst st') t) \<and>
      (\<forall>s. s \<noteq> u \<longrightarrow> map_of (snd st) s = map_of (snd st') s))"

section \<open>Properties\<close>

subsection \<open>Edit distance, row by row\<close>

lemma editdistance_eval_Nil2 [simp]: "editdistance_eval xs [] = length xs"
  by (cases xs) simp_all

lemma row_step_suffixes:
  "row_step x b (map (editdistance_eval xs) (suffixes_of b)) =
   map (editdistance_eval (x # xs)) (suffixes_of b)"
proof (induction b)
  case Nil
  show ?case by simp
next
  case (Cons y ys)
  have hd_suf: "hd (map (editdistance_eval zs) (suffixes_of ys)) = editdistance_eval zs ys" for zs
    by (cases ys) simp_all
  show ?case
    using Cons.IH by (simp add: Let_def hd_suf)
qed

lemma distance_row_suffixes:
  "distance_row a b = map (editdistance_eval a) (suffixes_of b)"
  unfolding distance_row_def
proof (induction a)
  case Nil
  show ?case by simp
next
  case (Cons x xs)
  then show ?case by (simp add: row_step_suffixes)
qed

lemma editdistance_eval_row: "editdistance_eval a b = hd (distance_row a b)"
  by (cases b) (simp_all add: distance_row_suffixes)

subsection \<open>The near-duplicate filter\<close>

lemma isCloseToList_loop_nonempty:
  assumes "word \<noteq> []" and "\<forall>known \<in> set cleanTerms. fst known \<noteq> []"
  shows "isCloseToList_loop word cleanTerms minEditDiff =
         Inr (\<not> spec_accepts cleanTerms word)"
  using assms(2)
proof (induction cleanTerms)
  case Nil
  show ?case by (simp add: spec_accepts_def)
next
  case (Cons p rest)
  obtain known w where p: "p = (known, w)" by (cases p)
  from Cons.prems p have "known \<noteq> []" by simp
  with assms(1) have pos: "min (length word) (length known) \<noteq> 0" by simp
  from Cons.prems have "\<forall>known \<in> set rest. fst known \<noteq> []" by simp
  then have IH: "isCloseToList_loop word rest minEditDiff = Inr (\<not> spec_accepts rest word)"
    by (rule Cons.IH)
  show ?case
    using pos IH
    by (auto simp: p Let_def spec_accepts_def normalized_distance_def minEditDiff_def not_less)
qed

lemma isCloseToList_nonempty:
  assumes "word \<noteq> []" and "\<forall>known \<in> set cleanTerms. fst known \<noteq> []"
  shows "isCloseToList word cleanTerms minEditDiff = Inr (\<not> spec_accepts cleanTerms word)"
proof (cases cleanTerms)
  case Nil
  then show ?thesis by (simp add: isCloseToList_def spec_accepts_def)
next
  case (Cons p rest)
  then show ?thesis
    using isCloseToList_loop_nonempty [OF assms] by (simp add: isCloseToList_def)
qed

lemma cleanTermList_loop_refines:
  assumes "\<forall>known \<in> set cleanTerms. fst known \<noteq> []"
    and "\<forall>t \<in> set termList. fst t \<noteq> []"
  shows "cleanTermList_loop cleanTerms termList = Inr (spec_clean_from cleanTerms termList)"
  using assms
proof (induction termList arbitrary: cleanTerms)
  case Nil
  show ?case by simp
next
  case (Cons t rest)
  obtain word weight where t: "t = (word, weight)" by (cases t)
  from Cons.prems(2) t have word: "word \<noteq> []" by simp
  have close: "isCloseToList word cleanTerms minEditDiff = Inr (\<not> spec_accepts cleanTerms word)"
    using word Cons.prems(1) by (rule isCloseToList_nonempty)
  let ?next = "if spec_accepts cleanTerms word then cleanTerms @ [(word, weight)] else cleanTerms"
  have "\<forall>known \<in> set ?next. fst known \<noteq> []"
    using Cons.prems(1) word by simp
  moreover have "\<forall>t \<in> set rest. fst t \<noteq> []"
    using Cons.prems(2) by simp
  ultimately have "cleanTermList_loop ?next rest = Inr (spec_clean_from ?next rest)"
    by (rule Cons.IH)
  then show ?case
    by (simp add: t close)
qed

lemma cleanTermList_refines:
  "\<forall>t \<in> set termList. fst t \<noteq> [] \<Longrightarrow> cleanTermList termList = Inr (spec_clean termList)"
  unfolding cleanTermList_def spec_clean_def
  by (rule cleanTermList_loop_refines) simp_all

lemma distance_corlog_oorlog: "editdistance_eval ''corlog'' ''oorlog'' = 1"
  unfolding editdistance_eval_row distance_row_def by (simp add: Let_def)

lemma distance_geboorteplek_oorlog: "editdistance_eval ''geboorteplek'' ''oorlog'' = 8"
  unfolding editdistance_eval_row distance_row_def by (simp add: Let_def)

lemma cleanTermList_drops_corlog:
  "cleanTermList [(''oorlog'', 8::int), (''corlog'', 2)] = Inr [(''oorlog'', 8)]"
  by (simp add: cleanTermList_def isCloseToList_def minEditDiff_def Let_def
      distance_corlog_oorlog del: editdistance_eval.simps)

lemma cleanTermList_keeps_geboorteplek:
  "cleanTermList [(''oorlog'', 8::int), (''geboorteplek'', 4)] =
   Inr [(''oorlog'', 8), (''geboorteplek'', 4)]"
  by (simp add: cleanTermList_def isCloseToList_def minEditDiff_def Let_def
      distance_geboorteplek_oorlog del: editdistance_eval.simps)

lemma isCloseToList_loop_error:
  "isCloseToList_loop word cleanTerms m = Inl e \<Longrightarrow> e = ZeroDivisionError"
  by (induction cleanTerms) (auto simp: Let_def split: if_splits)

lemma isCloseToList_error:
  "isCloseToList word cleanTerms m = Inl e \<Longrightarrow> e = ZeroDivisionError"
  by (auto simp: isCloseToList_def dest: isCloseToList_loop_error split: if_splits)

lemma isCloseToList_empty_word:
  "cleanTerms \<noteq> [] \<Longrightarrow> isCloseToList [] cleanTerms m = Inl ZeroDivisionError"
  by (cases cleanTerms) (auto simp: isCloseToList_def)

lemma cleanTermList_loop_empty_word:
  assumes "cleanTerms \<noteq> []" and "[] \<in> fst ` set termList"
  shows "cleanTermList_loop cleanTerms termList = Inl ZeroDivisionError"
  using assms
proof (induction termList arbitrary: cleanTerms)
  case Nil
  then show ?case by simp
next
  case (Cons t rest)
  obtain word weight where t: "t = (word, weight)" by (cases t)
  show ?case
  proof (cases "word = []")
    case True
    then show ?thesis
      using Cons.prems(1) by (simp add: t isCloseToList_empty_word)
  next
    case False
    with Cons.prems(2) t have rest: "[] \<in> fst ` set rest" by auto
    show ?thesis
    proof (cases "isCloseToList word cleanTerms minEditDiff")
      case (Inl e)
      then show ?thesis
        using isCloseToList_error [OF Inl] by (simp add: t)
    next
      case (Inr close)
      let ?next = "if \<not> close then cleanTerms @ [(word, weight)] else cleanTerms"
      have "?next \<noteq> []" using Cons.prems(1) by simp
      then have "cleanTermList_loop ?next rest = Inl ZeroDivisionError"
        using rest by (rule Cons.IH)
      then show ?thesis by (simp add: t Inr)
    qed
  qed
qed

lemma cleanTermList_later_empty_word:
  assumes "0 < i" and "i < length termList" and "fst (termList ! i) = []"
  shows "cleanTermList termList = Inl ZeroDivisionError"
proof (cases termList)
  case Nil
  with assms show ?thesis by simp
next
  case (Cons t rest)
  obtain word weight where t: "t = (word, weight)" by (cases t)
  from assms Cons have "rest ! (i - 1) \<in> set rest" and "fst (rest ! (i - 1)) = []"
    by (auto simp: nth_Cons split: nat.splits)
  then have "[] \<in> fst ` set rest" by force
  then have "cleanTermList_loop [(word, weight)] rest = Inl ZeroDivisionError"
    by (intro cleanTermList_loop_empty_word) simp_all
  then show ?thesis
    by (simp add: cleanTermList_def Cons t isCloseToList_def)
qed

lemma cleanTermList_first_empty_word:
  "cleanTermList (([], w) # t # rest) = Inl ZeroDivisionError"
  by (cases t) (simp add: cleanTermList_def isCloseToList_def)

lemma cleanTermList_fails_iff:
  "cleanTermList termList = Inl ZeroDivisionError \<longleftrightarrow>
     2 \<le> length termList \<and> [] \<in> fst ` set termList"
proof
  assume fails: "cleanTermList termList = Inl ZeroDivisionError"
  have "[] \<in> fst ` set termList"
  proof (rule ccontr)
    assume "[] \<notin> fst ` set termList"
    then have "\<forall>t \<in> set termList. fst t \<noteq> []" by force
    from cleanTermList_refines [OF this] fails show False by simp
  qed
  moreover have "2 \<le> length termList"
  proof (rule ccontr)
    assume "\<not> 2 \<le> length termList"
    then consider "termList = []" | t where "termList = [t]"
      by (cases termList; cases "tl termList") auto
    then show False
      using fails by cases (auto simp: cleanTermList_def isCloseToList_def split: prod.splits)
  qed
  ultimately show "2 \<le> length termList \<and> [] \<in> fst ` set termList" by simp
next
  assume "2 \<le> length termList \<and> [] \<in> fst ` set termList"
  then have len: "2 \<le> length termList" and "[] \<in> fst ` set termList" by simp_all
  then obtain i where i: "i < length termList" "fst (termList ! i) = []"
    by (metis imageE in_set_conv_nth)
  show "cleanTermList termList = Inl ZeroDivisionError"
  proof (cases i)
    case 0
    from len obtain p t rest where tl: "termList = p # t # rest"
      by (cases termList; cases "tl termList") auto
    with 0 i obtain w where "p = ([], w)" by (cases p) auto
    with tl show ?thesis by (simp add: cleanTermList_first_empty_word)
  next
    case (Suc j)
    then have "0 < i" by simp
    from this i show ?thesis by (rule cleanTermList_later_empty_word)
  qed
qed

lemma cleanTermList_error_kind: "cleanTermList termList = Inl e \<Longrightarrow> e = ZeroDivisionError"
proof -
  have "cleanTermList_loop acc rest = Inl e \<Longrightarrow> e = ZeroDivisionError" for acc rest
    by (induction rest arbitrary: acc)
      (auto split: sum.splits dest: isCloseToList_error)
  then show "cleanTermList termList = Inl e \<Longrightarrow> e = ZeroDivisionError"
    by (simp add: cleanTermList_def)
qed

lemma cleanTermList_returns_spec:
  assumes "cleanTermList termList = Inr r"
  shows "r = spec_clean termList"
proof (cases "\<forall>t \<in> set termList. fst t \<noteq> []")
  case True
  from cleanTermList_refines [OF this] assms show ?thesis by simp
next
  case False
  then have "[] \<in> fst ` set termList" by force
  with cleanTermList_fails_iff [of termList] assms have "\<not> 2 \<le> length termList" by auto
  then consider "termList = []" | t where "termList = [t]"
    by (cases termList; cases "tl termList") auto
  then show ?thesis
    using assms
    by cases (auto simp: cleanTermList_def spec_clean_def isCloseToList_def spec_accepts_def
        split: prod.splits)
qed

text \<open>
  Claim C8. The near-duplicate filter processes its input in the given order and accepts a
  candidate if and only if its normalized edit distance
  \<open>editDistance(a, b) / min(len(a), len(b))\<close> to every term accepted so far is at least
  0.20: on every term list without an empty word (where each quotient is defined) the code
  returns exactly what the filter of the specification, \<open>spec_clean\<close>, returns, and
  whenever the code returns at all it returns that. On \<open>[('oorlog', 8), ('corlog', 2)]\<close>
  it drops \<open>'corlog'\<close>, and on \<open>[('oorlog', 8), ('geboorteplek', 4)]\<close> it keeps both.
\<close>

theorem cleanTermList_accepts_iff_far:
  "((\<forall>t \<in> set termList. fst t \<noteq> []) \<longrightarrow> cleanTermList termList = Inr (spec_clean termList)) \<and>
   (\<forall>r. cleanTermList termList = Inr r \<longrightarrow> r = spec_clean termList) \<and>
   cleanTermList [(''oorlog'', 8::int), (''corlog'', 2)] = Inr [(''oorlog'', 8)] \<and>
   cleanTermList [(''oorlog'', 8::int), (''geboorteplek'', 4)] =
     Inr [(''oorlog'', 8), (''geboorteplek'', 4)]"
  using cleanTermList_refines [of termList] cleanTermList_returns_spec [of termList]
    cleanTermList_drops_corlog cleanTermList_keeps_geboorteplek
  by blast

theorem cleanTermList_accepts_iff_far_witness:
  "list_all (\<lambda>t. fst t \<noteq> []) [(''oorlog'', 8::int), (''corlog'', 2)] \<and>
   cleanTermList [(''oorlog'', 8::int), (''corlog'', 2)] =
     Inr (spec_clean [(''oorlog'', 8::int), (''corlog'', 2)]) \<and>
   spec_clean [(''oorlog'', 8::int), (''corlog'', 2)] = [(''oorlog'', 8)]"
proof -
  have nonempty: "\<forall>t \<in> set [(''oorlog'', 8::int), (''corlog'', 2)]. fst t \<noteq> []"
    by simp
  have run: "cleanTermList [(''oorlog'', 8::int), (''corlog'', 2)] =
      Inr (spec_clean [(''oorlog'', 8::int), (''corlog'', 2)])"
    using cleanTermList_accepts_iff_far [of "[(''oorlog'', 8::int), (''corlog'', 2)]"] nonempty
    by blast
  have "cleanTermList [(''oorlog'', 8::int), (''corlog'', 2)] = Inr [(''oorlog'', 8)]"
    using cleanTermList_accepts_iff_far [of "[(''oorlog'', 8::int), (''corlog'', 2)]"]
    by blast
  with run have "spec_clean [(''oorlog'', 8::int), (''corlog'', 2)] = [(''oorlog'', 8)]"
    by simp
  with run show ?thesis by simp
qed

text \<open>
  Claim C10. The near-duplicate filter returns a list on every term list whose words are
  all non-empty, and it fails with \<open>ZeroDivisionError\<close> whenever an empty word occurs
  after the first position, that is, after at least one term has been accepted (the first
  term of a list is always accepted): there \<open>min(len(word), len(known))\<close> is 0. Exactly:
  the call fails if and only if the list has at least two terms and one of its words is
  empty (a lone term with an empty word is accepted, nothing being compared with it), and
  \<open>ZeroDivisionError\<close> is its only failure.
\<close>

theorem cleanTermList_total_on_nonempty_words:
  "((\<forall>t \<in> set termList. fst t \<noteq> []) \<longrightarrow> (\<exists>r. cleanTermList termList = Inr r)) \<and>
   (\<forall>i. 0 < i \<and> i < length termList \<and> fst (termList ! i) = [] \<longrightarrow>
        cleanTermList termList = Inl ZeroDivisionError) \<and>
   (cleanTermList termList = Inl ZeroDivisionError \<longleftrightarrow>
      2 \<le> length termList \<and> [] \<in> fst ` set termList) \<and>
   (\<forall>e. cleanTermList termList = Inl e \<longrightarrow> e = ZeroDivisionError)"
  using cleanTermList_refines [of termList] cleanTermList_later_empty_word [of _ termList]
    cleanTermList_fails_iff [of termList] cleanTermList_error_kind [of termList]
  by blast

theorem cleanTermList_total_on_nonempty_words_witness:
  "list_all (\<lambda>t. fst t \<noteq> []) [(''oorlog'', 8::int)] \<and>
   (\<exists>r. cleanTermList [(''oorlog'', 8::int)] = Inr r) \<and>
   (0::nat) < 1 \<and> 1 < length [(''oorlog'', 8::int), ('''', 2)] \<and>
   fst ([(''oorlog'', 8::int), ('''', 2)] ! 1) = [] \<and>
   cleanTermList [(''oorlog'', 8::int), ('''', 2)] = Inl ZeroDivisionError"
proof -
  have "\<exists>r. cleanTermList [(''oorlog'', 8::int)] = Inr r"
    using cleanTermList_total_on_nonempty_words [of "[(''oorlog'', 8::int)]"] by simp
  moreover have "cleanTermList [(''oorlog'', 8::int), ('''', 2)] = Inl ZeroDivisionError"
  proof -
    have "(0::nat) < 1 \<and> 1 < length [(''oorlog'', 8::int), ('''', 2)] \<and>
        fst ([(''oorlog'', 8::int), ('''', 2)] ! 1) = []"
      by simp
    then show ?thesis
      using cleanTermList_total_on_nonempty_words [of "[(''oorlog'', 8::int), ('''', 2)]"]
      by blast
  qed
  ultimately show ?thesis by simp
qed

subsection \<open>The midpoint of a year range\<close>

lemma float_half_exact:
  assumes "\<bar>n\<bar> < 2 ^ 53"
  shows "float_half n = Inr (real_of_int n / 2)"
proof -
  let ?m = "nat \<bar>n\<bar>"
  from assms have small: "?m < 2 ^ 53"
    by (simp add: nat_less_iff)
  then have "floorlog 2 ?m \<le> 53"
    by (simp add: floorlog_le_iff)
  then have shift: "floorlog 2 ?m - 53 = 0" by simp
  have "(2::nat) ^ 53 \<le> 2 ^ 1025"
    by (rule power_increasing) simp_all
  with small have big: "\<not> 2 ^ 1025 \<le> ?m" by linarith
  show ?thesis
    unfolding float_half_def Let_def shift using big
    by (cases "n < 0") simp_all
qed

lemma float_half_ties_to_even:
  "float_half 18014398509481986 = Inr 9007199254740992"
  unfolding float_half_def Let_def
  by (simp add: compute_floorlog)

lemma float_half_years:
  "float_half 3909 = Inr (3909 / 2)"
  "float_half 3912 = Inr 1956"
  "float_half 3919 = Inr (3919 / 2)"
  by (simp_all add: float_half_exact)

lemma getRangeMiddle_single_example: "getRangeMiddle ''1950_1959'' None = Inr 1954"
  by (simp add: getRangeMiddle_def getitem_def int_of_str_def strip_def is_space_def
      decimal_def is_digit_def py_round_def float_half_years Let_def)

lemma getRangeMiddle_pair_example:
  "getRangeMiddle ''1950_1959'' (Some ''1953_1962'') = Inr 1956"
  by (simp add: getRangeMiddle_def getitem_def int_of_str_def strip_def is_space_def
      decimal_def is_digit_def py_round_def float_half_years Let_def)

lemma getRangeMiddle_reversed_example:
  "getRangeMiddle ''1960_1961'' (Some ''1950_1959'') = Inr 1960"
  by (simp add: getRangeMiddle_def getitem_def int_of_str_def strip_def is_space_def
      decimal_def is_digit_def py_round_def float_half_years Let_def)

lemma getRangeMiddle_large_example:
  "getRangeMiddle ''18014398509481986_0'' None = Inr 9007199254740992"
  by (simp add: getRangeMiddle_def getitem_def int_of_str_def strip_def is_space_def
      decimal_def is_digit_def py_round_def float_half_ties_to_even Let_def)

lemma split_on_nonempty: "split_on sep s \<noteq> []"
  by (induction s) (auto split: list.splits)

lemma split_on_no_sep: "sep \<notin> set a \<Longrightarrow> split_on sep a = [a]"
  by (induction a) auto

lemma split_on_append: "sep \<notin> set a \<Longrightarrow> split_on sep (a @ sep # b) = a # split_on sep b"
  by (induction a) auto

lemma decimal_from_digits: "decimal_from acc s = Some n \<Longrightarrow> \<forall>c \<in> set s. is_digit c"
  by (induction s arbitrary: acc) (auto split: if_splits)

lemma decimal_digits: "decimal s = Some n \<Longrightarrow> s \<noteq> [] \<and> (\<forall>c \<in> set s. is_digit c)"
  by (auto simp: decimal_def dest: decimal_from_digits split: if_splits)

lemma is_digit_plain:
  "is_digit c \<Longrightarrow> c \<noteq> CHR ''_'' \<and> c \<noteq> CHR ''-'' \<and> c \<noteq> CHR ''+'' \<and> \<not> is_space c"
  by (auto simp: is_digit_def is_space_def)

lemma strip_no_space: "\<forall>c \<in> set s. \<not> is_space c \<Longrightarrow> strip s = s"
proof -
  assume ns: "\<forall>c \<in> set s. \<not> is_space c"
  have "dropWhile is_space xs = xs" if "\<forall>c \<in> set xs. \<not> is_space c" for xs
    using that by (cases xs) simp_all
  from this [of s] this [of "rev s"] ns show ?thesis
    by (simp add: strip_def)
qed

lemma int_of_str_decimal:
  assumes "decimal s = Some n"
  shows "int_of_str s = Inr (int n)"
proof -
  from decimal_digits [OF assms] have ne: "s \<noteq> []" and dig: "\<forall>c \<in> set s. is_digit c"
    by simp_all
  from dig have "strip s = s"
    by (intro strip_no_space) (auto dest: is_digit_plain)
  moreover obtain c cs where s: "s = c # cs" using ne by (cases s) auto
  moreover have "c \<noteq> CHR ''-''" "c \<noteq> CHR ''+''"
    using dig s is_digit_plain [of c] by auto
  ultimately show ?thesis
    using assms by (simp add: int_of_str_def)
qed

lemma py_round_half:
  "py_round (real_of_int n / 2) =
     (if even n then n div 2 else if even (n div 2) then n div 2 else n div 2 + 1)"
proof (cases "even n")
  case True
  then obtain k where "n = 2 * k" by (elim evenE)
  then show ?thesis by (simp add: py_round_def)
next
  case False
  then obtain k where n: "n = 2 * k + 1" by (elim oddE)
  have fl: "\<lfloor>real_of_int n / 2\<rfloor> = k"
    by (rule floor_unique) (simp_all add: n)
  have d: "real_of_int n / 2 - of_int k = 1 / 2"
    by (simp add: n field_simps)
  have "n div 2 = k" by (simp add: n)
  then show ?thesis
    using False unfolding py_round_def Let_def fl d by simp
qed

lemma getRangeMiddle_years:
  assumes "decimal a = Some y0" and "decimal d = Some yn" and "CHR ''_'' \<notin> set c"
    and "int yn + int y0 < 2 ^ 53"
  shows "getRangeMiddle (a @ CHR ''_'' # b) (Some (c @ CHR ''_'' # d)) =
         Inr (py_round (real_of_int (int yn + int y0) / 2))"
proof -
  have a: "CHR ''_'' \<notin> set a"
    using decimal_digits [OF assms(1)] is_digit_plain by blast
  have d: "CHR ''_'' \<notin> set d"
    using decimal_digits [OF assms(2)] is_digit_plain by blast
  have first: "getitem (split_on CHR ''_'' (a @ CHR ''_'' # b)) 0 = Inr a"
    by (simp add: split_on_append [OF a] getitem_def)
  have last: "getitem (split_on CHR ''_'' (c @ CHR ''_'' # d)) 1 = Inr d"
    by (simp add: split_on_append [OF assms(3)] split_on_no_sep [OF d] getitem_def)
  have "\<bar>int yn + int y0\<bar> < 2 ^ 53"
    using assms(4) by simp
  then have half: "float_half (int yn + int y0) = Inr (real_of_int (int yn + int y0) / 2)"
    by (rule float_half_exact)
  show ?thesis
    by (simp only: getRangeMiddle_def Let_def option.case sum.case first last half
        int_of_str_decimal [OF assms(1)] int_of_str_decimal [OF assms(2)])
qed

text \<open>
  Claim C2, as stated, fails in two places. On its first example
  \<^verbatim>\<open>(1950 + 1959) / 2\<close> is 1954.5, a tie, and \<^verbatim>\<open>round\<close> sends a tie to the even
  neighbour 1954, not to 1955. And the years averaged are the start year of the first
  key and the end year of the last key, which need not be the earliest start and the
  latest end: for the pair \<open>('1960_1961', '1950_1959')\<close> the result is 1960, the rounded
  average of 1960 and 1959, where the rounded average of the earliest start 1950 and the
  latest end 1961 is 1956.
\<close>

theorem getRangeMiddle_counterexamples:
  "getRangeMiddle ''1950_1959'' None \<noteq> Inr 1955 \<and>
   getRangeMiddle ''1960_1961'' (Some ''1950_1959'') = Inr 1960 \<and>
   py_round (real_of_int (min 1960 1950 + max 1961 1959) / 2) = 1956"
  by (simp add: getRangeMiddle_single_example getRangeMiddle_reversed_example py_round_def)

text \<open>
  Claim C2, amended. The midpoint of the single key \<open>'1950_1959'\<close> is 1954 and the
  midpoint of the pair \<open>('1950_1959', '1953_1962')\<close> is 1956. A call with one key is
  the call with that key as both arguments. In general, for decimal year fields of at
  most 4300 digits whose sum is below \<open>2^53\<close> (where the division by two is exact in
  floating point), the result is the average of the start year of the first key and the
  end year of the last key, rounded to the nearest integer with a tie going to the even
  neighbour.
\<close>

theorem getRangeMiddle_rounds_half_to_even:
  "getRangeMiddle ''1950_1959'' None = Inr 1954 \<and>
   getRangeMiddle ''1950_1959'' (Some ''1953_1962'') = Inr 1956 \<and>
   getRangeMiddle first None = getRangeMiddle first (Some first) \<and>
   (decimal a = Some y0 \<and> decimal d = Some yn \<and> CHR ''_'' \<notin> set c \<and>
    length a \<le> 4300 \<and> length d \<le> 4300 \<and> int y0 + int yn < 2 ^ 53 \<longrightarrow>
      getRangeMiddle (a @ CHR ''_'' # b) (Some (c @ CHR ''_'' # d)) =
        Inr (let n = int y0 + int yn
             in if even n then n div 2 else if even (n div 2) then n div 2 else n div 2 + 1))"
proof -
  have "getRangeMiddle first None = getRangeMiddle first (Some first)"
    by (simp add: getRangeMiddle_def)
  moreover have "getRangeMiddle (a @ CHR ''_'' # b) (Some (c @ CHR ''_'' # d)) =
        Inr (let n = int y0 + int yn
             in if even n then n div 2 else if even (n div 2) then n div 2 else n div 2 + 1)"
    if "decimal a = Some y0" "decimal d = Some yn" "CHR ''_'' \<notin> set c"
      "int y0 + int yn < 2 ^ 53"
  proof -
    from that(4) have "int yn + int y0 < 2 ^ 53" by (simp add: add.commute)
    from getRangeMiddle_years [OF that(1-3) this] py_round_half [of "int y0 + int yn"]
    show ?thesis by (simp add: Let_def add.commute)
  qed
  ultimately show ?thesis
    using getRangeMiddle_single_example getRangeMiddle_pair_example by blast
qed

theorem getRangeMiddle_rounds_half_to_even_witness:
  "decimal ''1951'' = Some 1951 \<and> decimal ''1960'' = Some 1960 \<and>
   CHR ''_'' \<notin> set ''1949'' \<and> length ''1951'' \<le> 4300 \<and> length ''1960'' \<le> 4300 \<and>
   int 1951 + int 1960 < 2 ^ 53 \<and>
   getRangeMiddle ''1951_1958'' (Some ''1949_1960'') = Inr 1956"
proof -
  have h: "decimal ''1951'' = Some 1951 \<and> decimal ''1960'' = Some 1960 \<and>
      CHR ''_'' \<notin> set ''1949'' \<and> length ''1951'' \<le> 4300 \<and> length ''1960'' \<le> 4300 \<and>
      int 1951 + int 1960 < 2 ^ 53"
    by (simp add: decimal_def is_digit_def)
  then show ?thesis
    using getRangeMiddle_rounds_half_to_even
      [of "''''" "''1951''" 1951 "''1960''" 1960 "''1949''" "''1958''"]
    by (simp add: Let_def)
qed

subsection \<open>The neighbour loop of the expansion\<close>






lemma getRelatedTerms_mutual:
  "getRelatedTerms mutual_model [''a'', ''b''] 10 None =
     [(''a'', [(''b'', 0.9)]), (''b'', [(''a'', 0.9)])]"
  by (simp add: getRelatedTerms_def getRelatedTermsThread_def mutual_model_def
      less_eq_prod_def less_prod_def)

text \<open>
  Claim C3 says that the accumulated weight of a seed is \<open>wordBoost\<close> plus the rewards of
  all its occurrences as a surviving neighbour of the other seeds. The code gives a seed
  its boost by the assignment \<^verbatim>\<open>dRelatedTerms[term] = wordBoost\<close>, which discards what
  the seeds sorted before it have added. With the seeds \<open>a\<close> and \<open>b\<close>, each the neighbour
  of the other, and \<open>wordBoost = 1\<close>, \<open>reward = 1\<close>: \<open>a\<close> ends with weight 2, and \<open>b\<close>
  with weight 1 where the claim says 2.
\<close>

theorem accumulate_overwrites_seed_weight:
  "accumulate 1 (\<lambda>x. 1) 0 (getRelatedTerms mutual_model [''a'', ''b''] 10 None) =
     ([(''a'', 2), (''b'', 1)],
      [(''a'', [(''a'', 0), (''b'', 0.9)]), (''b'', [(''b'', 0), (''a'', 0.9)])])"
  by (simp add: getRelatedTerms_mutual accumulate_def)

subsection \<open>Sorted dictionaries\<close>

lemma map_of_sd_setitem: "map_of (sd_setitem k v d) = (map_of d)(k \<mapsto> v)"
  by (induction d) (auto simp: fun_eq_iff)

lemma keys_sd_setitem: "set (sd_keys (sd_setitem k v d)) = insert k (set (sd_keys d))"
proof -
  have "dom (map_of (sd_setitem k v d)) = insert k (dom (map_of d))"
    by (simp add: map_of_sd_setitem)
  then show ?thesis
    by (simp add: sd_keys_def dom_map_of_conv_image_fst)
qed

lemma strict_sd_setitem:
  "sorted_wrt (<) (sd_keys d) \<Longrightarrow> sorted_wrt (<) (sd_keys (sd_setitem k v d))"
proof (induction d)
  case Nil
  show ?case by (simp add: sd_keys_def)
next
  case (Cons p rest)
  obtain k' v' where p: "p = (k', v')" by (cases p)
  from Cons.prems have rest: "sorted_wrt (<) (sd_keys rest)"
    and above: "\<forall>x \<in> set (sd_keys rest). k' < x"
    by (simp_all add: p sd_keys_def)
  have keys: "set (sd_keys (sd_setitem k v rest)) = insert k (set (sd_keys rest))"
    by (rule keys_sd_setitem)
  show ?case
  proof (cases "k < k'")
    case True
    with Cons.prems show ?thesis by (auto simp: p sd_keys_def)
  next
    case False
    show ?thesis
    proof (cases "k = k'")
      case True
      with Cons.prems show ?thesis by (simp add: p sd_keys_def)
    next
      case ne: False
      with False have "k' < k" by simp
      with above keys have "\<forall>x \<in> set (sd_keys (sd_setitem k v rest)). k' < x" by simp
      with Cons.IH [OF rest] False ne show ?thesis
        by (simp add: p sd_keys_def)
    qed
  qed
qed

lemma strict_sorted_unique:
  "sorted_wrt (<) xs \<Longrightarrow> sorted_wrt (<) ys \<Longrightarrow> set xs = set ys \<Longrightarrow> xs = (ys :: 'a::linorder list)"
  by (metis sorted_distinct_set_unique strict_sorted_iff)

lemma loadAllModels_fold_strict:
  "sorted_wrt (<) (sd_keys d) \<Longrightarrow>
   sorted_wrt (<) (sd_keys (fold (\<lambda>(sModelName, model) models. sd_setitem sModelName model models) loaded d))"
  by (induction loaded arbitrary: d) (auto simp: strict_sd_setitem)

lemma loadAllModels_strict: "sorted_wrt (<) (sd_keys (loadAllModels loaded))"
  unfolding loadAllModels_def by (rule loadAllModels_fold_strict) (simp add: sd_keys_def)

lemma sd_getitem_present: "k \<in> set (sd_keys d) \<Longrightarrow> \<exists>v. sd_getitem d k = Inr v"
  by (cases "map_of d k") (auto simp: sd_getitem_def sd_keys_def map_of_eq_None_iff)

subsection \<open>Selecting the range of periods\<close>

lemma index_of_absent: "x \<notin> set xs \<Longrightarrow> index_of x xs = Inl ValueError"
  by (induction xs) auto

lemma index_of_strict:
  "sorted_wrt (<) xs \<Longrightarrow> x \<in> set xs \<Longrightarrow>
   \<exists>i. index_of x xs = Inr i \<and> drop i xs = filter (\<lambda>y. x \<le> y) xs \<and>
       take i xs = filter (\<lambda>y. y < x) (xs :: 'a::linorder list)"
proof (induction xs)
  case Nil
  then show ?case by simp
next
  case (Cons y ys)
  show ?case
  proof (cases "y = x")
    case True
    with Cons.prems(1) have "\<forall>z \<in> set ys. x < z" by simp
    then have "filter (\<lambda>z. x \<le> z) ys = ys" and "filter (\<lambda>z. z < x) ys = []"
      by (auto simp: filter_id_conv filter_empty_conv)
    with True show ?thesis by simp
  next
    case False
    with Cons.prems have in_ys: "x \<in> set ys" and lt: "y < x" by auto
    from Cons.prems(1) have "sorted_wrt (<) ys" by simp
    from Cons.IH [OF this in_ys] obtain i where
      "index_of x ys = Inr i" "drop i ys = filter (\<lambda>z. x \<le> z) ys"
      "take i ys = filter (\<lambda>z. z < x) ys"
      by blast
    with False lt show ?thesis by simp
  qed
qed

lemma select_start_strict:
  assumes "sorted_wrt (<) keys"
  shows "select_start start keys =
     (case start of
        None \<Rightarrow> Inr keys
      | Some s \<Rightarrow>
          if s \<in> set keys then Inr (filter (\<lambda>k. s \<le> k) keys)
          else Inl (KeyError (''Key '' @ s @ '' not a valid model index'')))"
proof (cases start)
  case None
  then show ?thesis by (simp add: select_start_def)
next
  case (Some s)
  show ?thesis
  proof (cases "s \<in> set keys")
    case True
    from index_of_strict [OF assms True] obtain i where
      "index_of s keys = Inr i" "drop i keys = filter (\<lambda>y. s \<le> y) keys"
      by blast
    with True Some show ?thesis by (simp add: select_start_def)
  next
    case False
    with Some show ?thesis by (simp add: select_start_def)
  qed
qed

lemma select_end_strict:
  assumes "sorted_wrt (<) keys"
  shows "select_end end keys =
     (case end of
        None \<Rightarrow> Inr keys
      | Some e \<Rightarrow>
          if e \<in> set keys then Inr (filter (\<lambda>k. k < e) keys)
          else Inl (KeyError (''Key '' @ e @ '' not a valid model index'')))"
proof (cases "end")
  case None
  then show ?thesis by (simp add: select_end_def)
next
  case (Some e)
  show ?thesis
  proof (cases "e \<in> set keys")
    case True
    from index_of_strict [OF assms True] obtain i where
      "index_of e keys = Inr i" "take i keys = filter (\<lambda>y. y < e) keys"
      by blast
    with True Some show ?thesis by (simp add: select_end_def)
  next
    case False
    with Some show ?thesis by (simp add: select_end_def)
  qed
qed

subsection \<open>The loop over the periods\<close>

lemma track_loop_unsupported:
  assumes "algorithm args \<noteq> ''adaptive''" and "algorithm args \<noteq> ''non-adaptive''"
  shows "track_loop models args ks seeds (yT, yL) =
     (case ks of
        [] \<Rightarrow> Inr (yT, yL)
      | k # rest \<Rightarrow> Inl (PyException (''Algorithm not supported: '' @ algorithm args)))"
  using assms by (cases ks) simp_all

lemma track_loop_keys:
  assumes "track_loop models args ks seeds (yT, yL) = Inr (yT', yL')"
  shows "set (sd_keys yT') = set (sd_keys yT) \<union> set ks \<and>
         set (sd_keys yL') = set (sd_keys yL) \<union> set ks \<and>
         (sorted_wrt (<) (sd_keys yT) \<longrightarrow> sorted_wrt (<) (sd_keys yT')) \<and>
         (sorted_wrt (<) (sd_keys yL) \<longrightarrow> sorted_wrt (<) (sd_keys yL'))"
  using assms
proof (induction ks arbitrary: seeds yT yL)
  case Nil
  then show ?case by simp
next
  case (Cons k rest)
  from Cons.prems obtain model terms links seeds' where
    next_run: "track_loop models args rest seeds' (sd_setitem k terms yT, sd_setitem k links yL) =
      Inr (yT', yL')"
    by (auto split: if_splits sum.splits prod.splits)
  from Cons.IH [OF next_run] show ?case
    by (auto simp: keys_sd_setitem strict_sd_setitem)
qed

lemma track_loop_total:
  assumes "algorithm args = ''adaptive'' \<or> algorithm args = ''non-adaptive''"
    and "set ks \<subseteq> set (sd_keys models)"
  shows "\<exists>r. track_loop models args ks seeds (yT, yL) = Inr r"
  using assms(2)
proof (induction ks arbitrary: seeds yT yL)
  case Nil
  show ?case by simp
next
  case (Cons k rest)
  from Cons.prems have "k \<in> set (sd_keys models)" and rest: "set rest \<subseteq> set (sd_keys models)"
    by simp_all
  then obtain model where model: "sd_getitem models k = Inr model"
    using sd_getitem_present by blast
  show ?case
    using assms(1) Cons.IH [OF rest] by (auto simp: model split: prod.splits)
qed

subsection \<open>The processing order\<close>

lemma filter_in_range:
  "filter (in_range start end) keys =
   filter (\<lambda>k. case end of None \<Rightarrow> True | Some e \<Rightarrow> k < e)
     (filter (\<lambda>k. case start of None \<Rightarrow> True | Some s \<Rightarrow> s \<le> k) keys)"
  by (induction keys) (auto simp: in_range_def)

lemma processing_order_strict:
  assumes "sorted_wrt (<) (sd_keys models)"
  shows "(isl (processing_order models args) \<longleftrightarrow> bad_range (sd_keys models) args) \<and>
         (\<forall>ks. processing_order models args = Inr ks \<longrightarrow>
            ks = (if forwards args
                  then filter (in_range (startKey args) (endKey args)) (sd_keys models)
                  else rev (filter (in_range (startKey args) (endKey args)) (sd_keys models))))"
proof -
  let ?keys = "sd_keys models"
  have strict: "sorted_wrt (<) (filter (\<lambda>k. s \<le> k) ?keys)" for s
    using assms by (rule sorted_wrt_filter)
  note sel = select_start_strict [OF assms] select_end_strict [OF assms]
    select_end_strict [OF strict]
  show ?thesis
  proof (cases "startKey args")
    case None
    show ?thesis
    proof (cases "endKey args")
      case e: None
      show ?thesis
        by (simp add: processing_order_def None e sel bad_range_def in_range_def)
    next
      case e: (Some e)
      show ?thesis
        by (auto simp: processing_order_def None e sel bad_range_def filter_in_range)
    qed
  next
    case (Some s)
    show ?thesis
    proof (cases "endKey args")
      case e: None
      show ?thesis
        by (auto simp: processing_order_def Some e sel bad_range_def filter_in_range)
    next
      case e: (Some e)
      show ?thesis
        by (auto simp: processing_order_def Some e sel bad_range_def filter_in_range not_less)
    qed
  qed
qed

subsection \<open>Two periods, evaluated\<close>

lemma two_periods_eq:
  "two_periods = [(''1950_1959'', mutual_model), (''1951_1960'', mutual_model)]"
  by (simp add: two_periods_def loadAllModels_def)

lemma getRelatedTerms_mutual_a:
  "getRelatedTerms mutual_model [''a''] 10 None = [(''a'', [(''b'', 0.9)])]"
  by (simp add: getRelatedTerms_def getRelatedTermsThread_def mutual_model_def)

lemma trackInlink_mutual_a:
  "trackInlink mutual_model [''a''] 10 10 0 1 False None =
     ([(''a'', 1), (''b'', 1)], [(''a'', [(''a'', 0), (''b'', 0.9)])], [''a'', ''b''])"
  by (simp add: trackInlink_def trackCore_def getRelatedTerms_mutual_a accumulate_def
      getCommonTerms_def pruned_def)

lemma trackInlink_mutual_ab:
  "trackInlink mutual_model [''a'', ''b''] 10 10 0 1 False None =
     ([(''a'', 2), (''b'', 1)],
      [(''a'', [(''a'', 0), (''b'', 0.9)]), (''b'', [(''b'', 0), (''a'', 0.9)])],
      [''a'', ''b''])"
  by (simp add: trackInlink_def trackCore_def getRelatedTerms_mutual accumulate_def
      getCommonTerms_def pruned_def)

lemma processing_order_backward:
  "processing_order two_periods (default_args\<lparr>forwards := False\<rparr>) =
     Inr [''1951_1960'', ''1950_1959'']"
  by (simp add: two_periods_eq processing_order_def default_args_def select_start_def
      select_end_def sd_keys_def)

lemma trackClouds_backward:
  "trackClouds two_periods (SeedString ''a'') (default_args\<lparr>forwards := False\<rparr>) =
     Inr ([(''1950_1959'', [(''a'', 2), (''b'', 1)]), (''1951_1960'', [(''a'', 1), (''b'', 1)])],
          [(''1950_1959'',
            [(''a'', [(''a'', 0), (''b'', 0.9)]), (''b'', [(''b'', 0), (''a'', 0.9)])]),
           (''1951_1960'', [(''a'', [(''a'', 0), (''b'', 0.9)])])])"
  unfolding trackClouds_def processing_order_backward
  by (simp add: two_periods_eq default_args_def sd_getitem_def trackInlink_mutual_a
      trackInlink_mutual_ab)

lemma trackClouds_reversed_range:
  "trackClouds two_periods (SeedString ''a'')
     (default_args\<lparr>startKey := Some ''1951_1960'', endKey := Some ''1950_1959''\<rparr>) =
     Inl (KeyError ''Key 1950_1959 not a valid model index'')"
  by (simp add: trackClouds_def two_periods_eq processing_order_def default_args_def
      select_start_def select_end_def sd_keys_def)

lemma trackClouds_empty_range:
  "trackClouds two_periods (SeedString ''a'')
     (default_args\<lparr>startKey := Some ''1950_1959'', endKey := Some ''1950_1959'',
        algorithm := ''bogus''\<rparr>) = Inr ([], [])"
  by (simp add: trackClouds_def two_periods_eq processing_order_def default_args_def
      select_start_def select_end_def sd_keys_def)

subsection \<open>\<^verbatim>\<open>trackClouds\<close>: algorithm, range and key order\<close>

text \<open>
  Claim C4, as stated, fails when the start and end keys select no period: the algorithm
  name is only looked at inside the loop over the selected periods, so with
  \<open>startKey = endKey\<close> the unknown algorithm \<open>bogus\<close> raises nothing and the result is
  a pair of empty dictionaries.
\<close>

theorem trackClouds_unsupported_empty_range:
  "trackClouds two_periods (SeedString ''a'')
     (default_args\<lparr>startKey := Some ''1950_1959'', endKey := Some ''1950_1959'',
        algorithm := ''bogus''\<rparr>) = Inr ([], [])"
  by (rule trackClouds_empty_range)

text \<open>
  Claim C4, amended. For every algorithm argument other than \<open>adaptive\<close> and
  \<open>non-adaptive\<close> and every choice of the other arguments: when a start or end key is
  refused, \<^verbatim>\<open>trackClouds\<close> raises that \<^verbatim>\<open>KeyError\<close>; when the keys select at least
  one period, it raises \<open>Algorithm not supported\<close> at the first period, before anything
  is expanded or stored; when they select no period, it returns empty results and raises
  nothing.
\<close>

theorem trackClouds_unsupported_algorithm:
  assumes "algorithm args \<noteq> ''adaptive''" and "algorithm args \<noteq> ''non-adaptive''"
  shows "trackClouds models seedTerms args =
     (case processing_order models args of
        Inl e \<Rightarrow> Inl e
      | Inr [] \<Rightarrow> Inr ([], [])
      | Inr (k # ks) \<Rightarrow> Inl (PyException (''Algorithm not supported: '' @ algorithm args)))"
  by (simp add: trackClouds_def track_loop_unsupported [OF assms] split: sum.splits list.splits)

theorem trackClouds_unsupported_algorithm_witness:
  "algorithm (default_args\<lparr>algorithm := ''bogus''\<rparr>) \<noteq> ''adaptive'' \<and>
   algorithm (default_args\<lparr>algorithm := ''bogus''\<rparr>) \<noteq> ''non-adaptive'' \<and>
   processing_order two_periods (default_args\<lparr>algorithm := ''bogus''\<rparr>) =
     Inr [''1950_1959'', ''1951_1960''] \<and>
   trackClouds two_periods (SeedString ''a'') (default_args\<lparr>algorithm := ''bogus''\<rparr>) =
     Inl (PyException ''Algorithm not supported: bogus'')"
proof -
  let ?args = "default_args\<lparr>algorithm := ''bogus''\<rparr>"
  have a: "algorithm ?args \<noteq> ''adaptive''" and n: "algorithm ?args \<noteq> ''non-adaptive''"
    by simp_all
  have order: "processing_order two_periods ?args = Inr [''1950_1959'', ''1951_1960'']"
    by (simp add: two_periods_eq processing_order_def default_args_def select_start_def
        select_end_def sd_keys_def)
  show ?thesis
    using trackClouds_unsupported_algorithm [OF a n, of two_periods "SeedString ''a''"] a n
    by (simp add: order)
qed

text \<open>
  Claim C5, as stated, fails for a pair of loaded keys given in reverse order: the end key
  is looked up in the keys that remain from the start key on, so an end key before the
  start key raises \<^verbatim>\<open>KeyError\<close> although it is a loaded key.
\<close>

theorem trackClouds_loaded_keys_reversed:
  "''1951_1960'' \<in> set (getAvailableYears two_periods) \<and>
   ''1950_1959'' \<in> set (getAvailableYears two_periods) \<and>
   trackClouds two_periods (SeedString ''a'')
     (default_args\<lparr>startKey := Some ''1951_1960'', endKey := Some ''1950_1959''\<rparr>) =
     Inl (KeyError ''Key 1950_1959 not a valid model index'')"
  using trackClouds_reversed_range
  by (simp add: getAvailableYears_def sd_keys_def two_periods_eq)

text \<open>
  Claim C5, amended. With a supported algorithm, \<^verbatim>\<open>trackClouds\<close> raises an error if and
  only if a supplied start key is not among the loaded period keys, or a supplied end key
  is not among the loaded keys from the start key on (it is not loaded, or it sorts before
  the start key). Otherwise the periods of the result are exactly the loaded keys in the
  half-open interval \<open>[startKey, endKey)\<close> of the sorted keys, the whole sequence on the
  side of an omitted bound.
\<close>

theorem trackClouds_range:
  assumes "algorithm args = ''adaptive'' \<or> algorithm args = ''non-adaptive''"
  shows "(isl (trackClouds (loadAllModels loaded) seedTerms args) \<longleftrightarrow>
            bad_range (getAvailableYears (loadAllModels loaded)) args) \<and>
         (\<forall>yTerms yLinks.
            trackClouds (loadAllModels loaded) seedTerms args = Inr (yTerms, yLinks) \<longrightarrow>
              sd_keys yTerms =
                filter (in_range (startKey args) (endKey args))
                  (getAvailableYears (loadAllModels loaded)) \<and>
              sd_keys yLinks =
                filter (in_range (startKey args) (endKey args))
                  (getAvailableYears (loadAllModels loaded)))"
proof -
  let ?models = "loadAllModels loaded"
  let ?keys = "sd_keys ?models"
  let ?range = "filter (in_range (startKey args) (endKey args)) ?keys"
  have strict: "sorted_wrt (<) ?keys" by (rule loadAllModels_strict)
  note order = processing_order_strict [OF strict, of args]
  have range_strict: "sorted_wrt (<) ?range"
    using strict by (rule sorted_wrt_filter)
  have errs: "isl (trackClouds ?models seedTerms args) \<longleftrightarrow> bad_range ?keys args"
  proof (cases "processing_order ?models args")
    case (Inl e)
    with order show ?thesis by (simp add: trackClouds_def)
  next
    case (Inr ks)
    with order have "set ks \<subseteq> set ?keys" by (auto split: if_splits)
    from track_loop_total [OF assms this] obtain r where
      "track_loop ?models args ks (seed_list seedTerms) ([], []) = Inr r"
      by blast
    with Inr order show ?thesis by (simp add: trackClouds_def)
  qed
  have keys: "sd_keys yTerms = ?range \<and> sd_keys yLinks = ?range"
    if run: "trackClouds ?models seedTerms args = Inr (yTerms, yLinks)" for yTerms yLinks
  proof -
    from run obtain ks where ks: "processing_order ?models args = Inr ks"
      and loop: "track_loop ?models args ks (seed_list seedTerms) ([], []) = Inr (yTerms, yLinks)"
      by (auto simp: trackClouds_def split: sum.splits)
    from order ks have set_ks: "set ks = set ?range" by (auto split: if_splits)
    from track_loop_keys [OF loop] set_ks
    have "set (sd_keys yTerms) = set ?range" "sorted_wrt (<) (sd_keys yTerms)"
      "set (sd_keys yLinks) = set ?range" "sorted_wrt (<) (sd_keys yLinks)"
      by (simp_all add: sd_keys_def)
    with range_strict show ?thesis
      by (auto intro: strict_sorted_unique)
  qed
  from errs keys show ?thesis
    by (simp add: getAvailableYears_def)
qed

theorem trackClouds_range_witness:
  "(algorithm (default_args\<lparr>startKey := Some ''1950_1959'', endKey := Some ''1951_1960''\<rparr>) =
      ''adaptive'' \<or>
    algorithm (default_args\<lparr>startKey := Some ''1950_1959'', endKey := Some ''1951_1960''\<rparr>) =
      ''non-adaptive'') \<and>
   \<not> bad_range (getAvailableYears two_periods)
       (default_args\<lparr>startKey := Some ''1950_1959'', endKey := Some ''1951_1960''\<rparr>) \<and>
   \<not> isl (trackClouds two_periods (SeedString ''a'')
       (default_args\<lparr>startKey := Some ''1950_1959'', endKey := Some ''1951_1960''\<rparr>)) \<and>
   filter (in_range (Some ''1950_1959'') (Some ''1951_1960'')) (getAvailableYears two_periods) =
     [''1950_1959'']"
proof -
  let ?args = "default_args\<lparr>startKey := Some ''1950_1959'', endKey := Some ''1951_1960''\<rparr>"
  have alg: "algorithm ?args = ''adaptive'' \<or> algorithm ?args = ''non-adaptive''"
    by (simp add: default_args_def)
  have keys: "getAvailableYears two_periods = [''1950_1959'', ''1951_1960'']"
    by (simp add: getAvailableYears_def sd_keys_def two_periods_eq)
  have good: "\<not> bad_range (getAvailableYears two_periods) ?args"
    by (simp add: keys bad_range_def)
  have "\<not> isl (trackClouds two_periods (SeedString ''a'') ?args)"
    using trackClouds_range
      [OF alg, of "[(''1951_1960'', mutual_model), (''1950_1959'', mutual_model)]"
        "SeedString ''a''"] good
    by (simp add: two_periods_def)
  with alg good show ?thesis
    by (simp add: keys in_range_def)
qed

text \<open>
  Claim C1, as stated, fails for the backward direction: the two periods are processed
  latest first, and the returned dictionaries list the earliest first, because they are
  sorted dictionaries.
\<close>

theorem trackClouds_backward_keys_ascending:
  "processing_order two_periods (default_args\<lparr>forwards := False\<rparr>) =
     Inr [''1951_1960'', ''1950_1959''] \<and>
   trackClouds two_periods (SeedString ''a'') (default_args\<lparr>forwards := False\<rparr>) =
     Inr ([(''1950_1959'', [(''a'', 2), (''b'', 1)]), (''1951_1960'', [(''a'', 1), (''b'', 1)])],
          [(''1950_1959'',
            [(''a'', [(''a'', 0), (''b'', 0.9)]), (''b'', [(''b'', 0), (''a'', 0.9)])]),
           (''1951_1960'', [(''a'', [(''a'', 0), (''b'', 0.9)])])])"
  using processing_order_backward trackClouds_backward by simp

text \<open>
  Claim C1, amended. For every tracking invocation that returns, the \<open>terms\<close> and
  \<open>links\<close> mappings are keyed by the processed period keys in ascending (chronological)
  order, whatever the direction: the key order is the processing order when the direction
  is forward and the reverse of the processing order when it is backward.
\<close>

theorem trackClouds_keys_chronological:
  assumes "trackClouds (loadAllModels loaded) seedTerms args = Inr (yTerms, yLinks)"
    and "processing_order (loadAllModels loaded) args = Inr ks"
  shows "sd_keys yTerms = (if forwards args then ks else rev ks) \<and>
         sd_keys yLinks = (if forwards args then ks else rev ks) \<and>
         sorted (sd_keys yTerms) \<and> sorted (sd_keys yLinks)"
proof -
  let ?models = "loadAllModels loaded"
  let ?range = "filter (in_range (startKey args) (endKey args)) (sd_keys ?models)"
  have strict: "sorted_wrt (<) (sd_keys ?models)" by (rule loadAllModels_strict)
  then have range_strict: "sorted_wrt (<) ?range" by (rule sorted_wrt_filter)
  from processing_order_strict [OF strict, of args] assms(2)
  have ks: "ks = (if forwards args then ?range else rev ?range)" by blast
  then have chrono: "(if forwards args then ks else rev ks) = ?range" by simp
  from assms have loop:
    "track_loop ?models args ks (seed_list seedTerms) ([], []) = Inr (yTerms, yLinks)"
    by (simp add: trackClouds_def)
  from ks have set_ks: "set ks = set ?range" by (simp split: if_splits)
  from track_loop_keys [OF loop] set_ks
  have "set (sd_keys yTerms) = set ?range" "sorted_wrt (<) (sd_keys yTerms)"
    "set (sd_keys yLinks) = set ?range" "sorted_wrt (<) (sd_keys yLinks)"
    by (simp_all add: sd_keys_def)
  with range_strict have "sd_keys yTerms = ?range" "sd_keys yLinks = ?range"
    by (auto intro: strict_sorted_unique)
  with chrono range_strict show ?thesis
    by (simp add: strict_sorted_iff)
qed

theorem trackClouds_keys_chronological_witness:
  "sd_keys [(''1950_1959'', [(''a'', 2), (''b'', 1 :: real)]),
            (''1951_1960'', [(''a'', 1), (''b'', 1)])] =
     rev [''1951_1960'', ''1950_1959''] \<and>
   forwards (default_args\<lparr>forwards := False\<rparr>) = False"
  using trackClouds_keys_chronological
    [of "[(''1951_1960'', mutual_model), (''1950_1959'', mutual_model)]" "SeedString ''a''"
      "default_args\<lparr>forwards := False\<rparr>", folded two_periods_def,
      OF trackClouds_backward processing_order_backward]
  by simp

subsection \<open>Seeds unknown to the model\<close>

lemma map_of_dd_modify:
  "map_of (dd_modify dflt f k d) =
     (map_of d)(k \<mapsto> f (case map_of d k of None \<Rightarrow> dflt | Some v \<Rightarrow> v))"
  by (induction d) (auto simp: fun_eq_iff)

lemma keys_dd_modify: "fst ` set (dd_modify dflt f k d) = insert k (fst ` set d)"
proof -
  have "dom (map_of (dd_modify dflt f k d)) = insert k (dom (map_of d))"
    by (simp add: map_of_dd_modify)
  then show ?thesis by (simp add: dom_map_of_conv_image_fst)
qed

lemma neighbours_loop_agree:
  assumes "term \<noteq> u" and "agree_off u (d1, l1) (d2, l2)"
  shows "agree_off u (neighbours_loop reward ms term nts (d1, l1))
           (neighbours_loop reward ms term nts (d2, l2))"
  using assms(2)
proof (induction nts arbitrary: d1 l1 d2 l2)
  case Nil
  then show ?case by simp
next
  case (Cons p rest)
  obtain newTerm tSim where p: "p = (newTerm, tSim)" by (cases p)
  show ?case
  proof (cases "tSim < ms")
    case True
    with Cons.prems show ?thesis by (simp add: p)
  next
    case False
    have "agree_off u
        (dd_modify 0 (\<lambda>w. w + reward tSim) newTerm d1,
         dd_modify [] (\<lambda>ps. ps @ [(newTerm, tSim)]) term l1)
        (dd_modify 0 (\<lambda>w. w + reward tSim) newTerm d2,
         dd_modify [] (\<lambda>ps. ps @ [(newTerm, tSim)]) term l2)"
      using Cons.prems assms(1) by (auto simp: agree_off_def map_of_dd_modify)
    from Cons.IH [OF this] False show ?thesis by (simp add: p)
  qed
qed

lemma seed_step_agree:
  assumes "fst q \<noteq> u" and "agree_off u st st'"
  shows "agree_off u (seed_step wb reward ms q st) (seed_step wb reward ms q st')"
proof -
  obtain "term" nts where q: "q = (term, nts)" by (cases q)
  obtain d1 l1 where st: "st = (d1, l1)" by (cases st)
  obtain d2 l2 where st': "st' = (d2, l2)" by (cases st')
  from assms(1) q have ne: "term \<noteq> u" by simp
  have "agree_off u
      (dd_modify 0 (\<lambda>_. wb) term d1, dd_modify [] (\<lambda>ps. ps @ [(term, 0)]) term l1)
      (dd_modify 0 (\<lambda>_. wb) term d2, dd_modify [] (\<lambda>ps. ps @ [(term, 0)]) term l2)"
    using assms(2) ne by (auto simp: agree_off_def map_of_dd_modify st st')
  from neighbours_loop_agree [OF ne this] show ?thesis
    by (simp add: q st st')
qed

lemma seed_step_unknown:
  "agree_off u st st' \<Longrightarrow> agree_off u (seed_step wb reward ms (u, []) st) st'"
  by (cases st) (auto simp: agree_off_def map_of_dd_modify)

lemma fold_seed_step_agree:
  assumes "\<forall>q \<in> set queries. fst q = u \<longrightarrow> snd q = []" and "agree_off u st st'"
  shows "agree_off u (fold (seed_step wb reward ms) queries st)
           (fold (seed_step wb reward ms) (filter (\<lambda>q. fst q \<noteq> u) queries) st')"
  using assms
proof (induction queries arbitrary: st st')
  case Nil
  then show ?case by simp
next
  case (Cons q rest)
  from Cons.prems(1) have rest: "\<forall>q \<in> set rest. fst q = u \<longrightarrow> snd q = []" by simp
  show ?case
  proof (cases "fst q = u")
    case True
    with Cons.prems(1) have q: "q = (u, [])" by (cases q) simp
    have "agree_off u (seed_step wb reward ms (u, []) st) st'"
      using Cons.prems(2) by (rule seed_step_unknown)
    from Cons.IH [OF rest this] show ?thesis by (simp add: q)
  next
    case False
    have "agree_off u (seed_step wb reward ms q st) (seed_step wb reward ms q st')"
      using False Cons.prems(2) by (rule seed_step_agree)
    from Cons.IH [OF rest this] False show ?thesis by simp
  qed
qed

lemma thread_unknown:
  "model u n = Inl (KeyError msg) \<Longrightarrow>
   getRelatedTermsThread model u n queries clean = queries @ [(u, [])]"
  by (simp add: getRelatedTermsThread_def)

lemma thread_append:
  "getRelatedTermsThread model t n queries clean =
   queries @ getRelatedTermsThread model t n [] clean"
  by (simp add: getRelatedTermsThread_def split: sum.splits py_error.splits option.splits)

lemma thread_own_term:
  "q \<in> set (getRelatedTermsThread model t n [] clean) \<Longrightarrow> fst q = t"
  by (auto simp: getRelatedTermsThread_def split: sum.splits py_error.splits option.splits)

lemma fold_thread_concat:
  "fold (\<lambda>t queries. getRelatedTermsThread model t n queries clean) seeds queries =
   queries @ concat (map (\<lambda>t. getRelatedTermsThread model t n [] clean) seeds)"
proof (induction seeds arbitrary: queries)
  case Nil
  show ?case by simp
next
  case (Cons t rest)
  show ?case
    by (simp add: Cons.IH thread_append [of model t n queries clean])
qed

lemma getRelatedTerms_concat:
  "getRelatedTerms model seeds n clean =
   sort (concat (map (\<lambda>t. getRelatedTermsThread model t n [] clean) seeds))"
  by (simp add: getRelatedTerms_def fold_thread_concat)

lemma filter_threads_unknown:
  assumes "model u n = Inl (KeyError msg)"
  shows "filter (\<lambda>q. fst q \<noteq> u)
           (concat (map (\<lambda>t. getRelatedTermsThread model t n [] clean) seeds)) =
         concat (map (\<lambda>t. getRelatedTermsThread model t n [] clean) (removeAll u seeds))"
proof (induction seeds)
  case Nil
  show ?case by simp
next
  case (Cons t rest)
  show ?case
  proof (cases "t = u")
    case True
    with Cons.IH show ?thesis
      by (simp add: thread_unknown [where model = model and u = u and n = n, OF assms])
  next
    case False
    then have "filter (\<lambda>q. fst q \<noteq> u) (getRelatedTermsThread model t n [] clean) =
        getRelatedTermsThread model t n [] clean"
      by (auto simp: filter_id_conv dest: thread_own_term)
    with False Cons.IH show ?thesis by simp
  qed
qed

lemma getRelatedTerms_without_unknown:
  assumes "model u n = Inl (KeyError msg)"
  shows "filter (\<lambda>q. fst q \<noteq> u) (getRelatedTerms model seeds n clean) =
         getRelatedTerms model (removeAll u seeds) n clean"
  by (simp add: getRelatedTerms_concat filter_sort filter_threads_unknown [where model = model and u = u and n = n, OF assms])

lemma getRelatedTerms_unknown_entries:
  assumes "model u n = Inl (KeyError msg)"
  shows "\<forall>q \<in> set (getRelatedTerms model seeds n clean). fst q = u \<longrightarrow> snd q = []"
proof (intro ballI impI)
  fix q
  assume member: "q \<in> set (getRelatedTerms model seeds n clean)" and u: "fst q = u"
  from member obtain t where t: "q \<in> set (getRelatedTermsThread model t n [] clean)"
    by (auto simp: getRelatedTerms_concat)
  then have "fst q = t" by (rule thread_own_term)
  with u have "t = u" by simp
  with t have "q \<in> set [(u, [])]"
    by (simp add: thread_unknown [where model = model and u = u and n = n, OF assms, of "[]"])
  then show "snd q = []" by simp
qed

lemma getRelatedTerms_unknown_member:
  assumes "model u n = Inl (KeyError msg)" and "u \<in> set seeds"
  shows "(u, []) \<in> set (getRelatedTerms model seeds n clean)"
  using assms(2) thread_unknown [where model = model and u = u and n = n, OF assms(1), of "[]" clean]
  by (force simp: getRelatedTerms_concat)

lemma neighbours_loop_link_keys:
  "fst ` set l \<subseteq> fst ` set (snd (neighbours_loop reward ms term nts (d, l)))"
proof (induction nts arbitrary: d l)
  case Nil
  show ?case by simp
next
  case (Cons p rest)
  obtain newTerm tSim where p: "p = (newTerm, tSim)" by (cases p)
  have "fst ` set l \<subseteq> fst ` set (dd_modify [] (\<lambda>ps. ps @ [(newTerm, tSim)]) term l)"
    by (auto simp: keys_dd_modify)
  also have "\<dots> \<subseteq> fst ` set (snd (neighbours_loop reward ms term rest
      (dd_modify 0 (\<lambda>w. w + reward tSim) newTerm d,
       dd_modify [] (\<lambda>ps. ps @ [(newTerm, tSim)]) term l)))"
    by (rule Cons.IH)
  finally show ?case by (auto simp: p)
qed

lemma seed_step_link_keys:
  "insert (fst q) (fst ` set (snd st)) \<subseteq> fst ` set (snd (seed_step wb reward ms q st))"
proof -
  obtain "term" nts where q: "q = (term, nts)" by (cases q)
  obtain d l where st: "st = (d, l)" by (cases st)
  have "insert term (fst ` set l) = fst ` set (dd_modify [] (\<lambda>ps. ps @ [(term, 0)]) term l)"
    by (simp add: keys_dd_modify)
  also have "\<dots> \<subseteq> fst ` set (snd (neighbours_loop reward ms term nts
      (dd_modify 0 (\<lambda>_. wb) term d, dd_modify [] (\<lambda>ps. ps @ [(term, 0)]) term l)))"
    by (rule neighbours_loop_link_keys)
  finally show ?thesis by (simp add: q st)
qed

lemma fold_seed_step_link_keys:
  "fst ` set (snd st) \<union> fst ` set queries \<subseteq>
   fst ` set (snd (fold (seed_step wb reward ms) queries st))"
proof (induction queries arbitrary: st)
  case Nil
  show ?case by simp
next
  case (Cons q rest)
  let ?st = "seed_step wb reward ms q st"
  have "fst ` set (snd st) \<union> fst ` set (q # rest) =
      insert (fst q) (fst ` set (snd st)) \<union> fst ` set rest"
    by auto
  also have "\<dots> \<subseteq> fst ` set (snd ?st) \<union> fst ` set rest"
    using seed_step_link_keys [of q st wb reward ms] by blast
  also have "\<dots> \<subseteq> fst ` set (snd (fold (seed_step wb reward ms) rest ?st))"
    by (rule Cons.IH)
  finally show ?case by simp
qed

lemma trackCore_link_keys:
  "fst ` set (getRelatedTerms model seeds n clean) \<subseteq>
   fst ` set (snd (trackCore model seeds maxT n ms wb reward clean))"
proof -
  let ?queries = "getRelatedTerms model seeds n clean"
  obtain d l where acc: "accumulate wb reward ms ?queries = (d, l)"
    by (cases "accumulate wb reward ms ?queries")
  have "fst ` set ?queries \<subseteq> fst ` set l"
    using fold_seed_step_link_keys [of "([], [])" ?queries wb reward ms] acc
    by (simp add: accumulate_def)
  moreover have "fst ` set (snd (trackCore model seeds maxT n ms wb reward clean)) = fst ` set l"
    by (force simp: trackCore_def acc Let_def)
  ultimately show ?thesis by simp
qed

lemma getRelatedTerms_mutual_a_zz:
  "getRelatedTerms mutual_model [''a'', ''zz''] 10 None = [(''a'', [(''b'', 0.9)]), (''zz'', [])]"
  by (simp add: getRelatedTerms_def getRelatedTermsThread_def mutual_model_def
      less_eq_prod_def less_prod_def)

lemma trackInlink_sum_a_zz:
  "trackInlink mutual_model [''a'', ''zz''] 2 10 0 1 True None =
     ([(''a'', 1), (''zz'', 1)], [(''a'', [(''a'', 0)]), (''zz'', [(''zz'', 0)])],
      [''a'', ''zz''])"
  by (simp add: trackInlink_def trackCore_def getRelatedTerms_mutual_a_zz accumulate_def
      getCommonTerms_def pruned_def)

lemma trackInlink_sum_a:
  "trackInlink mutual_model [''a''] 2 10 0 1 True None =
     ([(''a'', 1), (''b'', 0.1)], [(''a'', [(''a'', 0), (''b'', 0.9)])], [''a'', ''b''])"
  by (simp add: trackInlink_def trackCore_def getRelatedTerms_mutual_a accumulate_def
      getCommonTerms_def pruned_def)

text \<open>
  Claim C9, as stated, fails for what the expansion returns: the unknown seed is given
  \<^verbatim>\<open>wordBoost\<close> like every seed and competes for the \<^verbatim>\<open>maxTerms\<close> places of the
  vocabulary. With \<^verbatim>\<open>maxTerms = 2\<close> and similarity-weighted rewards, the seed \<open>a\<close> alone
  returns the terms \<open>a\<close> and \<open>b\<close> and the link from \<open>a\<close> to \<open>b\<close>; with the unknown seed
  \<open>zz\<close> added, \<open>zz\<close> takes the place of \<open>b\<close> and the link from \<open>a\<close> to \<open>b\<close> is pruned.
\<close>

theorem unknown_seed_displaces_results:
  "mutual_model ''zz'' 10 = Inl (KeyError ''zz'') \<and>
   trackInlink mutual_model [''a''] 2 10 0 1 True None =
     ([(''a'', 1), (''b'', 0.1)], [(''a'', [(''a'', 0), (''b'', 0.9)])], [''a'', ''b'']) \<and>
   trackInlink mutual_model [''a'', ''zz''] 2 10 0 1 True None =
     ([(''a'', 1), (''zz'', 1)], [(''a'', [(''a'', 0)]), (''zz'', [(''zz'', 0)])],
      [''a'', ''zz''])"
  using trackInlink_sum_a trackInlink_sum_a_zz by (simp add: mutual_model_def)

text \<open>
  Claim C9, amended. When a seed is unknown to the period's model (\<^verbatim>\<open>most_similar\<close>
  raises \<^verbatim>\<open>KeyError\<close>), its worker reports the seed with an empty neighbour list instead
  of an error. Before the selection of the top \<^verbatim>\<open>maxTerms\<close> terms, the weight accumulated
  by every other term and the links collected for every other seed are what they are for
  the seed set without the unknown seed. The unknown seed is a key of the links mapping
  that \<^verbatim>\<open>_trackCore\<close> returns. The expansion itself has no error result: nothing a
  worker raises reaches \<^verbatim>\<open>_trackCore\<close>.
\<close>

theorem unknown_seed_is_isolated:
  assumes "model u n = Inl (KeyError msg)" and "u \<in> set seeds"
  shows "getRelatedTermsThread model u n queries clean = queries @ [(u, [])] \<and>
    (\<forall>t. t \<noteq> u \<longrightarrow>
       map_of (fst (accumulate wb reward ms (getRelatedTerms model seeds n clean))) t =
       map_of (fst (accumulate wb reward ms
                      (getRelatedTerms model (removeAll u seeds) n clean))) t) \<and>
    (\<forall>s. s \<noteq> u \<longrightarrow>
       map_of (snd (accumulate wb reward ms (getRelatedTerms model seeds n clean))) s =
       map_of (snd (accumulate wb reward ms
                      (getRelatedTerms model (removeAll u seeds) n clean))) s) \<and>
    u \<in> fst ` set (snd (trackCore model seeds maxT n ms wb reward clean))"
proof -
  note unknown = assms(1)
  have thread: "getRelatedTermsThread model u n queries clean = queries @ [(u, [])]"
    using unknown by (rule thread_unknown [where model = model and u = u and n = n])
  have entries: "\<forall>q \<in> set (getRelatedTerms model seeds n clean). fst q = u \<longrightarrow> snd q = []"
    using unknown
    by (rule getRelatedTerms_unknown_entries [where model = model and u = u and n = n])
  have without: "filter (\<lambda>q. fst q \<noteq> u) (getRelatedTerms model seeds n clean) =
      getRelatedTerms model (removeAll u seeds) n clean"
    using unknown
    by (rule getRelatedTerms_without_unknown [where model = model and u = u and n = n])
  have start: "agree_off u ([], []) ([], [])"
    by (simp add: agree_off_def)
  have "agree_off u (accumulate wb reward ms (getRelatedTerms model seeds n clean))
      (accumulate wb reward ms (getRelatedTerms model (removeAll u seeds) n clean))"
    using fold_seed_step_agree [OF entries start, of wb reward ms]
    by (simp add: accumulate_def without)
  then have others:
    "\<forall>t. t \<noteq> u \<longrightarrow>
       map_of (fst (accumulate wb reward ms (getRelatedTerms model seeds n clean))) t =
       map_of (fst (accumulate wb reward ms
                      (getRelatedTerms model (removeAll u seeds) n clean))) t"
    "\<forall>s. s \<noteq> u \<longrightarrow>
       map_of (snd (accumulate wb reward ms (getRelatedTerms model seeds n clean))) s =
       map_of (snd (accumulate wb reward ms
                      (getRelatedTerms model (removeAll u seeds) n clean))) s"
    by (simp_all add: agree_off_def)
  have "(u, []) \<in> set (getRelatedTerms model seeds n clean)"
    using unknown assms(2)
    by (rule getRelatedTerms_unknown_member [where model = model and u = u and n = n])
  then have "u \<in> fst ` set (getRelatedTerms model seeds n clean)" by force
  with trackCore_link_keys [of model seeds n clean maxT ms wb reward]
  have key: "u \<in> fst ` set (snd (trackCore model seeds maxT n ms wb reward clean))"
    by blast
  show ?thesis
    by (intro conjI) (rule thread, rule others(1), rule others(2), rule key)
qed

theorem unknown_seed_is_isolated_witness:
  "mutual_model ''zz'' 10 = Inl (KeyError ''zz'') \<and> ''zz'' \<in> set [''a'', ''zz''] \<and>
   getRelatedTermsThread mutual_model ''zz'' 10 [(''a'', [(''b'', 0.9)])] None =
     [(''a'', [(''b'', 0.9)]), (''zz'', [])] \<and>
   ''zz'' \<in> fst ` set (snd (trackCore mutual_model [''a'', ''zz''] 10 10 0 1 (\<lambda>x. 1) None)) \<and>
   map_of (fst (accumulate 1 (\<lambda>x. 1) 0 (getRelatedTerms mutual_model [''a'', ''zz''] 10 None))) ''b'' =
   map_of (fst (accumulate 1 (\<lambda>x. 1) 0
                  (getRelatedTerms mutual_model (removeAll ''zz'' [''a'', ''zz'']) 10 None))) ''b''"
proof -
  have unknown: "mutual_model ''zz'' 10 = Inl (KeyError ''zz'')"
    by (simp add: mutual_model_def)
  have seed: "''zz'' \<in> set [''a'', ''zz'']" by simp
  have b: "''b'' \<noteq> ''zz''" by simp
  note run = unknown_seed_is_isolated
    [where model = mutual_model and u = "''zz''" and n = 10 and msg = "''zz''"
      and seeds = "[''a'', ''zz'']" and queries = "[(''a'', [(''b'', 0.9)])]" and clean = None
      and wb = 1 and reward = "\<lambda>x. 1" and ms = 0 and maxT = 10, OF unknown seed]
  note thread = run [THEN conjunct1]
  note weights = run [THEN conjunct2, THEN conjunct1, rule_format, OF b]
  note key = run [THEN conjunct2, THEN conjunct2, THEN conjunct2]
  from thread key weights unknown show ?thesis
    by simp
qed

subsection \<open>The seed set from one period to the next\<close>

lemma trackInlink_newSeedSet:
  "snd (snd (trackInlink model seeds maxT n ms wb sumSim clean)) =
   map fst (fst (trackInlink model seeds maxT n ms wb sumSim clean))"
  by (simp add: trackInlink_def Let_def split: prod.splits)

lemma track_loop_lookup_preserved:
  assumes "track_loop models args ks seeds (yT, yL) = Inr (yT', yL')" and "k \<notin> set ks"
  shows "map_of yT' k = map_of yT k \<and> map_of yL' k = map_of yL k"
  using assms
proof (induction ks arbitrary: seeds yT yL)
  case Nil
  then show ?case by simp
next
  case (Cons k0 rest)
  from Cons.prems(1) obtain terms links seeds' where
    next_run: "track_loop models args rest seeds' (sd_setitem k0 terms yT, sd_setitem k0 links yL) =
      Inr (yT', yL')"
    by (auto split: if_splits sum.splits prod.splits)
  from Cons.prems(2) have "k \<notin> set rest" and "k \<noteq> k0" by auto
  with Cons.IH [OF next_run] show ?case
    by (simp add: map_of_sd_setitem)
qed

lemma track_loop_adaptive_step:
  assumes "algorithm args = ''adaptive''"
    and "track_loop models args (k # rest) seeds (yT, yL) = Inr (yT', yL')"
  shows "\<exists>model. sd_getitem models k = Inr model \<and>
     track_loop models args rest
       (map fst (fst (trackInlink model seeds (maxTerms args) (maxRelatedTerms args)
          (minSim args) (wordBoost args) (sumSimilarity args) (cleaningFunction args))))
       (sd_setitem k (fst (trackInlink model seeds (maxTerms args) (maxRelatedTerms args)
          (minSim args) (wordBoost args) (sumSimilarity args) (cleaningFunction args))) yT,
        sd_setitem k (fst (snd (trackInlink model seeds (maxTerms args) (maxRelatedTerms args)
          (minSim args) (wordBoost args) (sumSimilarity args) (cleaningFunction args)))) yL) =
     Inr (yT', yL')"
proof (cases "sd_getitem models k")
  case (Inl e)
  with assms show ?thesis by simp
next
  case (Inr model)
  let ?R = "trackInlink model seeds (maxTerms args) (maxRelatedTerms args)
      (minSim args) (wordBoost args) (sumSimilarity args) (cleaningFunction args)"
  obtain terms links newSeedSet where R: "?R = (terms, links, newSeedSet)"
    by (cases ?R)
  from trackInlink_newSeedSet [of model seeds "maxTerms args" "maxRelatedTerms args"
      "minSim args" "wordBoost args" "sumSimilarity args" "cleaningFunction args"] R
  have "newSeedSet = map fst terms" by simp
  with assms Inr R show ?thesis by simp
qed

lemma track_loop_nonadaptive_step:
  assumes "algorithm args = ''non-adaptive''"
    and "track_loop models args (k # rest) seeds (yT, yL) = Inr (yT', yL')"
  shows "\<exists>model. sd_getitem models k = Inr model \<and>
     track_loop models args rest seeds
       (sd_setitem k (fst (trackCore model seeds (maxTerms args) (maxRelatedTerms args)
          (minSim args) 1.0 (\<lambda>x. 1.0) (cleaningFunction args))) yT,
        sd_setitem k (snd (trackCore model seeds (maxTerms args) (maxRelatedTerms args)
          (minSim args) 1.0 (\<lambda>x. 1.0) (cleaningFunction args))) yL) =
     Inr (yT', yL')"
proof (cases "sd_getitem models k")
  case (Inl e)
  with assms show ?thesis by simp
next
  case (Inr model)
  with assms show ?thesis by (simp split: prod.splits)
qed

lemma track_loop_adaptive_chain:
  assumes "algorithm args = ''adaptive''" and "distinct ks"
    and "track_loop models args ks seeds (yT, yL) = Inr (yT', yL')"
  shows "(ks \<noteq> [] \<longrightarrow>
      (\<exists>model. sd_getitem models (ks ! 0) = Inr model \<and>
         map_of yT' (ks ! 0) =
           Some (fst (trackInlink model seeds (maxTerms args) (maxRelatedTerms args)
             (minSim args) (wordBoost args) (sumSimilarity args) (cleaningFunction args))) \<and>
         map_of yL' (ks ! 0) =
           Some (fst (snd (trackInlink model seeds (maxTerms args) (maxRelatedTerms args)
             (minSim args) (wordBoost args) (sumSimilarity args) (cleaningFunction args)))))) \<and>
    (\<forall>i. Suc i < length ks \<longrightarrow>
      (\<exists>model terms. sd_getitem models (ks ! Suc i) = Inr model \<and>
         map_of yT' (ks ! i) = Some terms \<and>
         map_of yT' (ks ! Suc i) =
           Some (fst (trackInlink model (map fst terms) (maxTerms args) (maxRelatedTerms args)
             (minSim args) (wordBoost args) (sumSimilarity args) (cleaningFunction args))) \<and>
         map_of yL' (ks ! Suc i) =
           Some (fst (snd (trackInlink model (map fst terms) (maxTerms args)
             (maxRelatedTerms args) (minSim args) (wordBoost args) (sumSimilarity args)
             (cleaningFunction args))))))"
  using assms(2,3)
proof (induction ks arbitrary: seeds yT yL)
  case Nil
  show ?case by simp
next
  case (Cons k rest)
  let ?R = "\<lambda>model seeds. trackInlink model seeds (maxTerms args) (maxRelatedTerms args)
      (minSim args) (wordBoost args) (sumSimilarity args) (cleaningFunction args)"
  from track_loop_adaptive_step [OF assms(1) Cons.prems(2)] obtain model where
    model: "sd_getitem models k = Inr model" and
    next_run: "track_loop models args rest (map fst (fst (?R model seeds)))
      (sd_setitem k (fst (?R model seeds)) yT, sd_setitem k (fst (snd (?R model seeds))) yL) =
      Inr (yT', yL')"
    by blast
  from Cons.prems(1) have k: "k \<notin> set rest" and rest: "distinct rest" by simp_all
  from track_loop_lookup_preserved [OF next_run k]
  have head: "map_of yT' k = Some (fst (?R model seeds))"
    "map_of yL' k = Some (fst (snd (?R model seeds)))"
    by (simp_all add: map_of_sd_setitem)
  note IH = Cons.IH [OF rest next_run]
  have first: "\<exists>model. sd_getitem models ((k # rest) ! 0) = Inr model \<and>
      map_of yT' ((k # rest) ! 0) = Some (fst (?R model seeds)) \<and>
      map_of yL' ((k # rest) ! 0) = Some (fst (snd (?R model seeds)))"
    using model head by simp
  have chain: "\<exists>model terms. sd_getitem models ((k # rest) ! Suc i) = Inr model \<and>
      map_of yT' ((k # rest) ! i) = Some terms \<and>
      map_of yT' ((k # rest) ! Suc i) = Some (fst (?R model (map fst terms))) \<and>
      map_of yL' ((k # rest) ! Suc i) = Some (fst (snd (?R model (map fst terms))))"
    if i: "Suc i < length (k # rest)" for i
  proof (cases i)
    case 0
    with i have "rest \<noteq> []" by auto
    with IH obtain model' where
      "sd_getitem models (rest ! 0) = Inr model'"
      "map_of yT' (rest ! 0) = Some (fst (?R model' (map fst (fst (?R model seeds)))))"
      "map_of yL' (rest ! 0) = Some (fst (snd (?R model' (map fst (fst (?R model seeds))))))"
      by blast
    with head 0 show ?thesis by auto
  next
    case (Suc j)
    with i have "Suc j < length rest" by simp
    with IH Suc show ?thesis by simp
  qed
  from first chain show ?case by blast
qed

lemma track_loop_nonadaptive_all:
  assumes "algorithm args = ''non-adaptive''" and "distinct ks"
    and "track_loop models args ks seeds (yT, yL) = Inr (yT', yL')"
  shows "\<forall>i. i < length ks \<longrightarrow>
      (\<exists>model. sd_getitem models (ks ! i) = Inr model \<and>
         map_of yT' (ks ! i) =
           Some (fst (trackCore model seeds (maxTerms args) (maxRelatedTerms args)
             (minSim args) 1.0 (\<lambda>x. 1.0) (cleaningFunction args))) \<and>
         map_of yL' (ks ! i) =
           Some (snd (trackCore model seeds (maxTerms args) (maxRelatedTerms args)
             (minSim args) 1.0 (\<lambda>x. 1.0) (cleaningFunction args))))"
  using assms(2,3)
proof (induction ks arbitrary: yT yL)
  case Nil
  show ?case by simp
next
  case (Cons k rest)
  let ?C = "\<lambda>model. trackCore model seeds (maxTerms args) (maxRelatedTerms args)
      (minSim args) 1.0 (\<lambda>x. 1.0) (cleaningFunction args)"
  from track_loop_nonadaptive_step [OF assms(1) Cons.prems(2)] obtain model where
    model: "sd_getitem models k = Inr model" and
    next_run: "track_loop models args rest seeds
      (sd_setitem k (fst (?C model)) yT, sd_setitem k (snd (?C model)) yL) = Inr (yT', yL')"
    by blast
  from Cons.prems(1) have k: "k \<notin> set rest" and rest: "distinct rest" by simp_all
  from track_loop_lookup_preserved [OF next_run k]
  have head: "map_of yT' k = Some (fst (?C model))" "map_of yL' k = Some (snd (?C model))"
    by (simp_all add: map_of_sd_setitem)
  note IH = Cons.IH [OF rest next_run]
  show ?case
  proof (intro allI impI)
    fix i
    assume i: "i < length (k # rest)"
    show "\<exists>model. sd_getitem models ((k # rest) ! i) = Inr model \<and>
        map_of yT' ((k # rest) ! i) = Some (fst (?C model)) \<and>
        map_of yL' ((k # rest) ! i) = Some (snd (?C model))"
    proof (cases i)
      case 0
      with model head show ?thesis by simp
    next
      case (Suc j)
      with i have "j < length rest" by simp
      with IH Suc show ?thesis by simp
    qed
  qed
qed

lemma processing_order_distinct:
  assumes "processing_order (loadAllModels loaded) args = Inr ks"
  shows "distinct ks"
proof -
  have strict: "sorted_wrt (<) (sd_keys (loadAllModels loaded))"
    by (rule loadAllModels_strict)
  then have "distinct (filter (in_range (startKey args) (endKey args))
      (sd_keys (loadAllModels loaded)))"
    by (simp add: strict_sorted_iff)
  with processing_order_strict [OF strict, of args] assms show ?thesis
    by (auto split: if_splits)
qed

lemma trackCore_mutual_a:
  "trackCore mutual_model [''a''] 10 10 0 1 (\<lambda>x. 1) None =
     ([(''a'', 1), (''b'', 1)], [(''a'', [(''a'', 0), (''b'', 0.9)])])"
  by (simp add: trackCore_def getRelatedTerms_mutual_a accumulate_def getCommonTerms_def
      pruned_def)

lemma processing_order_nonadaptive:
  "processing_order two_periods (default_args\<lparr>algorithm := ''non-adaptive''\<rparr>) =
     Inr [''1950_1959'', ''1951_1960'']"
  by (simp add: two_periods_eq processing_order_def default_args_def select_start_def
      select_end_def sd_keys_def)

lemma trackClouds_nonadaptive:
  "trackClouds two_periods (SeedString ''a'') (default_args\<lparr>algorithm := ''non-adaptive''\<rparr>) =
     Inr ([(''1950_1959'', [(''a'', 1), (''b'', 1)]), (''1951_1960'', [(''a'', 1), (''b'', 1)])],
          [(''1950_1959'', [(''a'', [(''a'', 0), (''b'', 0.9)])]),
           (''1951_1960'', [(''a'', [(''a'', 0), (''b'', 0.9)])])])"
  unfolding trackClouds_def processing_order_nonadaptive
  by (simp add: two_periods_eq default_args_def sd_getitem_def trackCore_mutual_a)

text \<open>
  Claim C6. Let \<open>ks\<close> be the periods in processing order and let the call return. In
  adaptive mode the first period is expanded from the seed terms of the call, and the
  result stored for period \<open>i + 1\<close> is the expansion (\<^verbatim>\<open>_trackInlink\<close>) of that period's
  model from exactly the vocabulary terms, stripped of their weights, stored for period
  \<open>i\<close>. In non-adaptive mode the result stored for every processed period is the
  expansion (\<^verbatim>\<open>_trackCore\<close>) of that period's model from the seed terms of the call.
\<close>

theorem seed_set_propagation:
  assumes "trackClouds (loadAllModels loaded) seedTerms args = Inr (yTerms, yLinks)"
    and "processing_order (loadAllModels loaded) args = Inr ks"
  shows "(algorithm args = ''adaptive'' \<longrightarrow>
      (ks \<noteq> [] \<longrightarrow>
        (\<exists>model. sd_getitem (loadAllModels loaded) (ks ! 0) = Inr model \<and>
           map_of yTerms (ks ! 0) =
             Some (fst (trackInlink model (seed_list seedTerms) (maxTerms args)
               (maxRelatedTerms args) (minSim args) (wordBoost args) (sumSimilarity args)
               (cleaningFunction args))) \<and>
           map_of yLinks (ks ! 0) =
             Some (fst (snd (trackInlink model (seed_list seedTerms) (maxTerms args)
               (maxRelatedTerms args) (minSim args) (wordBoost args) (sumSimilarity args)
               (cleaningFunction args)))))) \<and>
      (\<forall>i. Suc i < length ks \<longrightarrow>
        (\<exists>model terms. sd_getitem (loadAllModels loaded) (ks ! Suc i) = Inr model \<and>
           map_of yTerms (ks ! i) = Some terms \<and>
           map_of yTerms (ks ! Suc i) =
             Some (fst (trackInlink model (map fst terms) (maxTerms args)
               (maxRelatedTerms args) (minSim args) (wordBoost args) (sumSimilarity args)
               (cleaningFunction args))) \<and>
           map_of yLinks (ks ! Suc i) =
             Some (fst (snd (trackInlink model (map fst terms) (maxTerms args)
               (maxRelatedTerms args) (minSim args) (wordBoost args) (sumSimilarity args)
               (cleaningFunction args))))))) \<and>
    (algorithm args = ''non-adaptive'' \<longrightarrow>
      (\<forall>i. i < length ks \<longrightarrow>
        (\<exists>model. sd_getitem (loadAllModels loaded) (ks ! i) = Inr model \<and>
           map_of yTerms (ks ! i) =
             Some (fst (trackCore model (seed_list seedTerms) (maxTerms args)
               (maxRelatedTerms args) (minSim args) 1.0 (\<lambda>x. 1.0) (cleaningFunction args))) \<and>
           map_of yLinks (ks ! i) =
             Some (snd (trackCore model (seed_list seedTerms) (maxTerms args)
               (maxRelatedTerms args) (minSim args) 1.0 (\<lambda>x. 1.0) (cleaningFunction args))))))"
proof -
  from assms have loop:
    "track_loop (loadAllModels loaded) args ks (seed_list seedTerms) ([], []) =
       Inr (yTerms, yLinks)"
    by (simp add: trackClouds_def)
  have distinct: "distinct ks"
    using assms(2) by (rule processing_order_distinct)
  show ?thesis
  proof (intro conjI impI)
    assume adaptive: "algorithm args = ''adaptive''"
    note chain = track_loop_adaptive_chain [OF adaptive distinct loop]
    from chain show "\<forall>i. Suc i < length ks \<longrightarrow>
        (\<exists>model terms. sd_getitem (loadAllModels loaded) (ks ! Suc i) = Inr model \<and>
           map_of yTerms (ks ! i) = Some terms \<and>
           map_of yTerms (ks ! Suc i) =
             Some (fst (trackInlink model (map fst terms) (maxTerms args)
               (maxRelatedTerms args) (minSim args) (wordBoost args) (sumSimilarity args)
               (cleaningFunction args))) \<and>
           map_of yLinks (ks ! Suc i) =
             Some (fst (snd (trackInlink model (map fst terms) (maxTerms args)
               (maxRelatedTerms args) (minSim args) (wordBoost args) (sumSimilarity args)
               (cleaningFunction args)))))"
      by (rule conjunct2)
    assume "ks \<noteq> []"
    with chain [THEN conjunct1]
    show "\<exists>model. sd_getitem (loadAllModels loaded) (ks ! 0) = Inr model \<and>
           map_of yTerms (ks ! 0) =
             Some (fst (trackInlink model (seed_list seedTerms) (maxTerms args)
               (maxRelatedTerms args) (minSim args) (wordBoost args) (sumSimilarity args)
               (cleaningFunction args))) \<and>
           map_of yLinks (ks ! 0) =
             Some (fst (snd (trackInlink model (seed_list seedTerms) (maxTerms args)
               (maxRelatedTerms args) (minSim args) (wordBoost args) (sumSimilarity args)
               (cleaningFunction args))))"
      by (rule mp)
  next
    assume "algorithm args = ''non-adaptive''"
    from track_loop_nonadaptive_all [OF this distinct loop]
    show "\<forall>i. i < length ks \<longrightarrow>
        (\<exists>model. sd_getitem (loadAllModels loaded) (ks ! i) = Inr model \<and>
           map_of yTerms (ks ! i) =
             Some (fst (trackCore model (seed_list seedTerms) (maxTerms args)
               (maxRelatedTerms args) (minSim args) 1.0 (\<lambda>x. 1.0) (cleaningFunction args))) \<and>
           map_of yLinks (ks ! i) =
             Some (snd (trackCore model (seed_list seedTerms) (maxTerms args)
               (maxRelatedTerms args) (minSim args) 1.0 (\<lambda>x. 1.0) (cleaningFunction args))))" .
  qed
qed

theorem seed_set_propagation_witness:
  "algorithm (default_args\<lparr>forwards := False\<rparr>) = ''adaptive'' \<and>
   map_of [(''1950_1959'', [(''a'', 2), (''b'', 1 :: real)]),
           (''1951_1960'', [(''a'', 1), (''b'', 1)])] ''1951_1960'' =
     Some [(''a'', 1), (''b'', 1)] \<and>
   map_of [(''1950_1959'', [(''a'', 2), (''b'', 1 :: real)]),
           (''1951_1960'', [(''a'', 1), (''b'', 1)])] ''1950_1959'' =
     Some (fst (trackInlink mutual_model (map fst [(''a'', 1 :: real), (''b'', 1)])
                  10 10 0 1 False None)) \<and>
   algorithm (default_args\<lparr>algorithm := ''non-adaptive''\<rparr>) = ''non-adaptive'' \<and>
   map_of [(''1950_1959'', [(''a'', 1), (''b'', 1 :: real)]),
           (''1951_1960'', [(''a'', 1), (''b'', 1)])] ''1951_1960'' =
     Some (fst (trackCore mutual_model [''a''] 10 10 0 1 (\<lambda>x. 1) None))"
proof -
  have adaptive: "algorithm (default_args\<lparr>forwards := False\<rparr>) = ''adaptive''"
    by (simp add: default_args_def)
  have nonadaptive: "algorithm (default_args\<lparr>algorithm := ''non-adaptive''\<rparr>) = ''non-adaptive''"
    by simp
  have model: "sd_getitem two_periods k = Inr m \<longleftrightarrow>
      (k = ''1950_1959'' \<or> k = ''1951_1960'') \<and> m = mutual_model" for k m
    by (auto simp: two_periods_eq sd_getitem_def)
  note backward = seed_set_propagation
    [of "[(''1951_1960'', mutual_model), (''1950_1959'', mutual_model)]" "SeedString ''a''"
      "default_args\<lparr>forwards := False\<rparr>", folded two_periods_def,
      OF trackClouds_backward processing_order_backward]
  from backward [THEN conjunct1, rule_format, OF adaptive, THEN conjunct2, rule_format, of 0]
  have step: "map_of [(''1950_1959'', [(''a'', 2), (''b'', 1 :: real)]),
           (''1951_1960'', [(''a'', 1), (''b'', 1)])] ''1950_1959'' =
     Some (fst (trackInlink mutual_model (map fst [(''a'', 1 :: real), (''b'', 1)])
                  10 10 0 1 False None))"
    by (simp add: model default_args_def)
  note forward = seed_set_propagation
    [of "[(''1951_1960'', mutual_model), (''1950_1959'', mutual_model)]" "SeedString ''a''"
      "default_args\<lparr>algorithm := ''non-adaptive''\<rparr>", folded two_periods_def,
      OF trackClouds_nonadaptive processing_order_nonadaptive]
  from forward [THEN conjunct2, rule_format, OF nonadaptive, of 1]
  have same: "map_of [(''1950_1959'', [(''a'', 1), (''b'', 1 :: real)]),
           (''1951_1960'', [(''a'', 1), (''b'', 1)])] ''1951_1960'' =
     Some (fst (trackCore mutual_model [''a''] 10 10 0 1 (\<lambda>x. 1) None))"
    by (simp add: model default_args_def)
  show ?thesis
    by (intro conjI) (rule adaptive, simp, rule step, rule nonadaptive, rule same)
qed

end
